theory Spec2Isabelle
  imports Main "HOL-Library.AList"
begin

section \<open>Values exchanged with the backend\<close>

text \<open>
  The chat feature (\<^verbatim>\<open>ChatUseCase.ts\<close>, \<^verbatim>\<open>useChat.ts\<close>) talks to a hosted backend through a
  client library. The backend is not part of the program: every answer it gives is a
  parameter of the model, and every request the program issues is recorded as a
  \<open>llamada\<close>. Strings are lists of 8-bit code units; timestamps are the store's
  \<open>created_at\<close> values in the order the store sorts them.
\<close>

datatype excepcion = Excepcion (message: "string option")

text \<open>An awaited call either throws or resolves to a value.\<close>

datatype 'a respuesta = Lanza excepcion | Responde 'a

record usuario_auth =
  user_id :: string
  user_email :: "string option"

record fila =
  f_id :: string
  f_contenido :: string
  f_usuario_id :: string
  f_created_at :: nat
  f_usuario_email :: "string option"
  f_usuario_rol :: "string option"

record autor =
  email :: string
  rol :: string

record mensaje =
  m_id :: string
  m_contenido :: string
  m_usuario_id :: string
  m_created_at :: nat
  m_usuario :: autor

record consulta =
  q_tabla :: string
  q_orden :: string
  q_ascending :: bool
  q_limit :: nat

record carga =
  p_usuario_id :: string
  p_email :: string
  p_escribiendo :: bool

record resultado =
  success :: bool
  error :: "string option"

datatype llamada =
    GetUser
  | Select consulta
  | Insert string string
  | CanalTyping
  | Broadcast carga

text \<open>
  The answers of the backend at one moment: the identity \<^verbatim>\<open>auth.getUser()\<close> resolves
  to, the \<open>{data, error}\<close> pair of a select, and the \<open>error\<close> of an insert of a body for a
  sender.
\<close>

record entorno =
  e_getUser :: "usuario_auth option respuesta"
  e_select :: "consulta \<Rightarrow> (fila list option \<times> excepcion option) respuesta"
  e_insert :: "string \<Rightarrow> string \<Rightarrow> excepcion option respuesta"

section \<open>ChatUseCase\<close>

text \<open>JavaScript's \<^verbatim>\<open>v || d\<close> on an optional string: absent and empty both give \<open>d\<close>.\<close>

definition o_bien :: "string option \<Rightarrow> string \<Rightarrow> string" where
  "o_bien v d = (case v of None \<Rightarrow> d | Some s \<Rightarrow> if s = [] then d else s)"

definition formatear :: "fila \<Rightarrow> mensaje" where
  "formatear msg =
     \<lparr>m_id = f_id msg,
      m_contenido = f_contenido msg,
      m_usuario_id = f_usuario_id msg,
      m_created_at = f_created_at msg,
      m_usuario = \<lparr>email = o_bien (f_usuario_email msg) ''Desconocido'',
                   rol = o_bien (f_usuario_rol msg) ''usuario''\<rparr>\<rparr>"

definition consulta_mensajes :: "nat \<Rightarrow> consulta" where
  "consulta_mensajes limite =
     \<lparr>q_tabla = ''mensajes'', q_orden = ''created_at'', q_ascending = False, q_limit = limite\<rparr>"

text \<open>
  \<^verbatim>\<open>obtenerMensajes(limite)\<close>: one select; a thrown call and a non-null \<open>error\<close> both end in
  the \<^verbatim>\<open>catch\<close>, which returns the empty list; otherwise \<open>data || []\<close> is mapped and
  reversed.
\<close>

definition obtenerMensajes ::
  "(consulta \<Rightarrow> (fila list option \<times> excepcion option) respuesta) \<Rightarrow> nat \<Rightarrow> mensaje list" where
  "obtenerMensajes almacen limite =
     (case almacen (consulta_mensajes limite) of
        Lanza e \<Rightarrow> []
      | Responde (datos, err) \<Rightarrow>
          (case err of
             Some e \<Rightarrow> []
           | None \<Rightarrow> rev (map formatear (case datos of None \<Rightarrow> [] | Some filas \<Rightarrow> filas))))"

text \<open>
  \<^verbatim>\<open>ChatUseCase.enviarMensaje(contenido)\<close>: the result and the requests issued, in order.
  There is no check of the body here.
\<close>

definition ChatUseCase_enviarMensaje ::
  "usuario_auth option respuesta \<Rightarrow> (string \<Rightarrow> string \<Rightarrow> excepcion option respuesta) \<Rightarrow> string
     \<Rightarrow> resultado \<times> llamada list" where
  "ChatUseCase_enviarMensaje r_user r_insert contenido =
     (case r_user of
        Lanza e \<Rightarrow> (\<lparr>success = False, error = message e\<rparr>, [GetUser])
      | Responde None \<Rightarrow> (\<lparr>success = False, error = Some ''Usuario no autenticado''\<rparr>, [GetUser])
      | Responde (Some user) \<Rightarrow>
          (case r_insert contenido (user_id user) of
             Lanza e \<Rightarrow>
               (\<lparr>success = False, error = message e\<rparr>, [GetUser, Insert contenido (user_id user)])
           | Responde (Some e) \<Rightarrow>
               (\<lparr>success = False, error = message e\<rparr>, [GetUser, Insert contenido (user_id user)])
           | Responde None \<Rightarrow>
               (\<lparr>success = True, error = None\<rparr>, [GetUser, Insert contenido (user_id user)])))"

text \<open>
  \<^verbatim>\<open>setTyping(escribiendo)\<close> on the use case's \<open>typingChannel\<close> field (\<open>True\<close> when a channel
  is held): the new field and the requests issued. With no identity it returns before
  any channel operation; the outcome of \<^verbatim>\<open>send\<close> is discarded and every exception is
  caught.
\<close>

definition setTyping :: "usuario_auth option respuesta \<Rightarrow> bool \<Rightarrow> bool \<Rightarrow> bool \<times> llamada list" where
  "setTyping r_user typingChannel escribiendo =
     (case r_user of
        Lanza e \<Rightarrow> (typingChannel, [GetUser])
      | Responde None \<Rightarrow> (typingChannel, [GetUser])
      | Responde (Some user) \<Rightarrow>
          (True,
           [GetUser] @ (if typingChannel then [] else [CanalTyping]) @
           [Broadcast \<lparr>p_usuario_id = user_id user,
                       p_email = o_bien (user_email user) ''Desconocido'',
                       p_escribiendo = escribiendo\<rparr>]))"

section \<open>useChat: state, timers and callbacks\<close>

text \<open>
  The hook runs on one event loop: a callback runs to completion before the next one
  starts. Its state is the React state (\<open>mensajes\<close>, \<open>cargando\<close>, \<open>enviando\<close>,
  \<open>typingUsers\<close>), the two refs (\<open>typingTimeoutRef\<close>, and \<open>typingTimers\<close> as the
  own properties of a plain object), the use case's \<open>typingChannel\<close> field and whether the two subscriptions still deliver. The model adds
  a clock in milliseconds, the table of pending timers with the counter that hands out
  fresh positive handles, the backend's current answers, and two records of what has
  happened: the timers that fired and the requests issued, each with its time.

  An awaited backend call is taken to resolve before the next event is handled, so each
  asynchronous function of the hook is one step.
\<close>

datatype accion = ExpiraTyping string | StopTyping

record temporizador =
  t_handle :: nat
  t_vence :: nat
  t_accion :: accion

record typing_user =
  tu_usuario_id :: string
  tu_email :: "string option"

record estado =
  ahora :: nat
  siguiente :: nat
  pendientes :: "temporizador list"
  disparados :: "temporizador list"
  registro :: "(nat \<times> llamada) list"
  entorno_actual :: entorno
  oyeMensajes :: bool
  oyeTyping :: bool
  typingChannel :: bool
  mensajes :: "mensaje list"
  cargando :: bool
  enviando :: bool
  typingUsers :: "typing_user list"
  typingTimeoutRef :: "nat option"
  typingTimers :: "(string \<times> nat) list"

text \<open>\<^verbatim>\<open>setTimeout(cb, ms)\<close> returns a fresh handle; \<^verbatim>\<open>clearTimeout(h)\<close> drops the timer \<open>h\<close>.\<close>

definition setTimeout :: "accion \<Rightarrow> nat \<Rightarrow> estado \<Rightarrow> nat \<times> estado" where
  "setTimeout a ms s =
     (siguiente s,
      s\<lparr>siguiente := Suc (siguiente s),
        pendientes := pendientes s @ [\<lparr>t_handle = siguiente s, t_vence = ahora s + ms, t_accion = a\<rparr>]\<rparr>)"

definition clearTimeout :: "nat \<Rightarrow> estado \<Rightarrow> estado" where
  "clearTimeout h s = s\<lparr>pendientes := filter (\<lambda>t. t_handle t \<noteq> h) (pendientes s)\<rparr>"

text \<open>
  \<^verbatim>\<open>if (ref) clearTimeout(ref)\<close>: a handle is tested for truthiness, so an absent handle
  and the number 0 are both skipped.
\<close>

definition limpiar_si :: "nat option \<Rightarrow> estado \<Rightarrow> estado" where
  "limpiar_si r s = (case r of None \<Rightarrow> s | Some h \<Rightarrow> if h \<noteq> 0 then clearTimeout h s else s)"

text \<open>
  \<open>typingTimers.current\<close> is a plain object \<^verbatim>\<open>{}\<close> indexed by the sender identifier of
  the payload, which is not validated. Its own properties are kept as an association
  list from key to handle. A read of a key that is no own property goes to
  \<open>Object.prototype\<close>: for the names that object defines it gives a function or, for
  \<open>__proto__\<close>, the prototype itself, all truthy and none a timer handle; for any other
  name it gives \<open>undefined\<close>. An assignment to the key \<open>__proto__\<close> calls the inherited
  setter, which ignores a number, so no own property is made; an assignment to any other
  key makes or updates an own property. \<^verbatim>\<open>delete\<close> removes an own property only, and
  \<^verbatim>\<open>Object.values\<close> lists the values of the own properties (the order in which it lists
  them does not matter to what the cleanup clears).
\<close>

datatype valor_js = Indefinido | Numero nat | Heredado

definition heredadas :: "string list" where
  "heredadas =
     [''__proto__'', ''constructor'', ''hasOwnProperty'', ''isPrototypeOf'',
      ''propertyIsEnumerable'', ''toLocaleString'', ''toString'', ''valueOf'',
      ''__defineGetter__'', ''__defineSetter__'', ''__lookupGetter__'', ''__lookupSetter__'']"

definition leer :: "(string \<times> nat) list \<Rightarrow> string \<Rightarrow> valor_js" where
  "leer tabla k =
     (case map_of tabla k of
        Some h \<Rightarrow> Numero h
      | None \<Rightarrow> if k \<in> set heredadas then Heredado else Indefinido)"

definition escribir :: "string \<Rightarrow> nat \<Rightarrow> (string \<times> nat) list \<Rightarrow> (string \<times> nat) list" where
  "escribir k h tabla = (if k = ''__proto__'' then tabla else AList.update k h tabla)"

fun veraz :: "valor_js \<Rightarrow> bool" where
  "veraz Indefinido = False"
| "veraz (Numero h) = (h \<noteq> 0)"
| "veraz Heredado = True"

text \<open>\<^verbatim>\<open>clearTimeout(v)\<close> on a value read from the table: a value that is no handle clears nothing.\<close>

definition clearTimeout_valor :: "valor_js \<Rightarrow> estado \<Rightarrow> estado" where
  "clearTimeout_valor v s = (case v of Numero h \<Rightarrow> clearTimeout h s | _ \<Rightarrow> s)"

text \<open>A call of \<^verbatim>\<open>chatUseCase.setTyping\<close> at the current time, with the identity answer given.\<close>

definition publicar_con :: "usuario_auth option respuesta \<Rightarrow> bool \<Rightarrow> estado \<Rightarrow> estado" where
  "publicar_con r_user escribiendo s =
     (let (canal, ls) = setTyping r_user (typingChannel s) escribiendo
      in s\<lparr>typingChannel := canal, registro := registro s @ map (Pair (ahora s)) ls\<rparr>)"

definition publicar :: "bool \<Rightarrow> estado \<Rightarrow> estado" where
  "publicar escribiendo s = publicar_con (e_getUser (entorno_actual s)) escribiendo s"

text \<open>
  \<^verbatim>\<open>String.prototype.trim\<close> removes white space and line terminators from both ends;
  below 256 these are the code units 9 to 13, 32 and 160.
\<close>

definition es_espacio :: "char \<Rightarrow> bool" where
  "es_espacio c = (c \<in> set [CHR 0x09, CHR 0x0A, CHR 0x0B, CHR 0x0C, CHR 0x0D, CHR 0x20, CHR 0xA0])"

definition trim :: "string \<Rightarrow> string" where
  "trim s = rev (dropWhile es_espacio (rev (dropWhile es_espacio s)))"

definition mensaje_vacio :: string where
  "mensaje_vacio = ''El mensaje est'' @ [CHR 0xE1] @ '' vac'' @ [CHR 0xED] @ ''o''"

text \<open>
  The hook's \<^verbatim>\<open>enviarMensaje(contenido)\<close>. \<open>r_user1\<close> and \<open>r_insert\<close> answer the use case's
  \<^verbatim>\<open>enviarMensaje\<close>, \<open>r_user2\<close> the identity lookup of the \<^verbatim>\<open>setTyping(false)\<close> that
  follows it.
\<close>

definition useChat_enviarMensaje ::
  "usuario_auth option respuesta \<Rightarrow> (string \<Rightarrow> string \<Rightarrow> excepcion option respuesta)
     \<Rightarrow> usuario_auth option respuesta \<Rightarrow> string \<Rightarrow> estado \<Rightarrow> resultado \<times> estado" where
  "useChat_enviarMensaje r_user1 r_insert r_user2 contenido s =
     (if trim contenido = [] then (\<lparr>success = False, error = Some mensaje_vacio\<rparr>, s)
      else
        (let s1 = s\<lparr>enviando := True\<rparr>;
             (res, ls) = ChatUseCase_enviarMensaje r_user1 r_insert contenido;
             s2 = s1\<lparr>enviando := False, registro := registro s1 @ map (Pair (ahora s1)) ls\<rparr>;
             s3 = publicar_con r_user2 False s2
         in (res, s3)))"

definition enviarMensaje :: "string \<Rightarrow> estado \<Rightarrow> resultado \<times> estado" where
  "enviarMensaje contenido s =
     useChat_enviarMensaje (e_getUser (entorno_actual s)) (e_insert (entorno_actual s))
       (e_getUser (entorno_actual s)) contenido s"

text \<open>\<^verbatim>\<open>cargarMensajes\<close>: the hook calls \<^verbatim>\<open>obtenerMensajes()\<close> with the default limit 50.\<close>

definition cargarMensajes :: "estado \<Rightarrow> estado" where
  "cargarMensajes s =
     s\<lparr>cargando := False,
       mensajes := obtenerMensajes (e_select (entorno_actual s)) 50,
       registro := registro s @ [(ahora s, Select (consulta_mensajes 50))]\<rparr>"

text \<open>The updater the live message callback passes to \<^verbatim>\<open>setMensajes\<close>.\<close>

definition alRecibirMensaje :: "mensaje list \<Rightarrow> mensaje \<Rightarrow> mensaje list" where
  "alRecibirMensaje prev nuevoMensaje =
     (if list_ex (\<lambda>m. m_id m = m_id nuevoMensaje) prev then prev else prev @ [nuevoMensaje])"

text \<open>\<^verbatim>\<open>notifyTyping()\<close>.\<close>

definition notifyTyping :: "estado \<Rightarrow> estado" where
  "notifyTyping s =
     (let s1 = publicar True s;
          s2 = limpiar_si (typingTimeoutRef s1) s1;
          (h, s3) = setTimeout StopTyping 1500 s2
      in s3\<lparr>typingTimeoutRef := Some h\<rparr>)"

text \<open>The callback given to \<^verbatim>\<open>suscribirseATyping\<close>.\<close>

definition alRecibirTyping :: "string \<Rightarrow> string option \<Rightarrow> bool \<Rightarrow> estado \<Rightarrow> estado" where
  "alRecibirTyping usuario_id correo escribiendo s =
     (if escribiendo then
        (let v = leer (typingTimers s) usuario_id;
             s1 = (if veraz v then clearTimeout_valor v s else s);
             s2 = s1\<lparr>typingUsers :=
                      (if list_ex (\<lambda>u. tu_usuario_id u = usuario_id) (typingUsers s1)
                       then typingUsers s1
                       else typingUsers s1 @ [\<lparr>tu_usuario_id = usuario_id, tu_email = correo\<rparr>])\<rparr>;
             (h, s3) = setTimeout (ExpiraTyping usuario_id) 3000 s2
         in s3\<lparr>typingTimers := escribir usuario_id h (typingTimers s3)\<rparr>)
      else
        (let v = leer (typingTimers s) usuario_id;
             s1 = (if veraz v
                   then (clearTimeout_valor v s)\<lparr>typingTimers := AList.delete usuario_id (typingTimers s)\<rparr>
                   else s)
         in s1\<lparr>typingUsers := filter (\<lambda>u. tu_usuario_id u \<noteq> usuario_id) (typingUsers s1)\<rparr>))"

text \<open>The two timer callbacks: the per-sender expiry and the debounced stop.\<close>

fun ejecutar :: "accion \<Rightarrow> estado \<Rightarrow> estado" where
  "ejecutar (ExpiraTyping usuario_id) s =
     s\<lparr>typingUsers := filter (\<lambda>u. tu_usuario_id u \<noteq> usuario_id) (typingUsers s),
       typingTimers := AList.delete usuario_id (typingTimers s)\<rparr>"
| "ejecutar StopTyping s = (publicar False s)\<lparr>typingTimeoutRef := None\<rparr>"

text \<open>
  The cleanup of the effect: both subscriptions are closed (the typing one only when the
  use case holds a channel), the debounce timer and every timer whose handle is a value
  of the timer table are cleared, and the table is replaced by an empty one.
  \<open>typingUsers\<close> is not written.
\<close>

definition desmontar :: "estado \<Rightarrow> estado" where
  "desmontar s =
     (let s1 = s\<lparr>oyeMensajes := False\<rparr>;
          s2 = (if typingChannel s1 then s1\<lparr>oyeTyping := False, typingChannel := False\<rparr> else s1);
          s3 = limpiar_si (typingTimeoutRef s2) s2;
          s4 = fold clearTimeout (map snd (typingTimers s3)) s3
      in s4\<lparr>typingTimers := []\<rparr>)"

section \<open>The event loop\<close>

text \<open>
  The next timer to fire before \<open>limite\<close>: a pending timer that is due and whose deadline
  is the least, the oldest one among equals.
\<close>

definition proximo :: "nat \<Rightarrow> temporizador list \<Rightarrow> temporizador option" where
  "proximo limite ts =
     find (\<lambda>t. t_vence t \<le> limite \<and> list_all (\<lambda>u. t_vence t \<le> t_vence u) ts) ts"

definition disparar :: "temporizador \<Rightarrow> estado \<Rightarrow> estado" where
  "disparar t s =
     ejecutar (t_accion t)
       (s\<lparr>ahora := max (ahora s) (t_vence t),
          pendientes := filter (\<lambda>u. t_handle u \<noteq> t_handle t) (pendientes s),
          disparados := disparados s @ [t]\<rparr>)"

function correr :: "nat \<Rightarrow> estado \<Rightarrow> estado" where
  "correr limite s =
     (case proximo limite (pendientes s) of
        None \<Rightarrow> s\<lparr>ahora := max (ahora s) limite\<rparr>
      | Some t \<Rightarrow> correr limite (disparar t s))"
  by pat_completeness auto
termination
proof (relation "measure (\<lambda>(limite, s). length (pendientes s))")
  show "wf (measure (\<lambda>(limite, s). length (pendientes s)))"
    by simp
next
  fix limite :: nat and s :: estado and t :: temporizador
  assume "proximo limite (pendientes s) = Some t"
  then have "t \<in> set (pendientes s)"
    by (auto simp: proximo_def find_Some_iff)
  then have "length (filter (\<lambda>u. t_handle u \<noteq> t_handle t) (pendientes s)) < length (pendientes s)"
    by (intro length_filter_less[of t]) simp_all
  moreover have "pendientes (disparar t s) = filter (\<lambda>u. t_handle u \<noteq> t_handle t) (pendientes s)"
    by (cases "t_accion t")
       (simp_all add: disparar_def publicar_def publicar_con_def split: prod.splits)
  ultimately show "((limite, disparar t s), (limite, s)) \<in> measure (\<lambda>(limite, s). length (pendientes s))"
    by simp
qed

declare correr.simps [simp del]

definition avanzar :: "nat \<Rightarrow> estado \<Rightarrow> estado" where
  "avanzar dt s = correr (ahora s + dt) s"

datatype evento =
    Pasa nat
  | CambiaEntorno entorno
  | CargarMensajes
  | LlegaMensaje mensaje
  | LlegaTyping string "string option" bool
  | NotifyTyping
  | EnviarMensaje string
  | Desmontar

fun paso :: "evento \<Rightarrow> estado \<Rightarrow> estado" where
  "paso (Pasa dt) s = avanzar dt s"
| "paso (CambiaEntorno e) s = s\<lparr>entorno_actual := e\<rparr>"
| "paso CargarMensajes s = cargarMensajes s"
| "paso (LlegaMensaje m) s =
     (if oyeMensajes s then s\<lparr>mensajes := alRecibirMensaje (mensajes s) m\<rparr> else s)"
| "paso (LlegaTyping usuario_id correo escribiendo) s =
     (if oyeTyping s then alRecibirTyping usuario_id correo escribiendo s else s)"
| "paso NotifyTyping s = notifyTyping s"
| "paso (EnviarMensaje contenido) s = snd (enviarMensaje contenido s)"
| "paso Desmontar s = desmontar s"

definition ejecucion :: "evento list \<Rightarrow> estado \<Rightarrow> estado" where
  "ejecucion evs s = fold paso evs s"

text \<open>The hook right after its first render and effect: nothing loaded, both subscriptions open.\<close>

definition inicial :: "entorno \<Rightarrow> estado" where
  "inicial e =
     \<lparr>ahora = 0, siguiente = 1, pendientes = [], disparados = [], registro = [],
      entorno_actual = e, oyeMensajes = True, oyeTyping = True, typingChannel = True,
      mensajes = [], cargando = True, enviando = False, typingUsers = [],
      typingTimeoutRef = None, typingTimers = []\<rparr>"

section \<open>Observations and sample values\<close>

text \<open>The typing signals among the recorded requests, each with the time it was sent.\<close>

fun difusion :: "llamada \<Rightarrow> carga option" where
  "difusion (Broadcast c) = Some c"
| "difusion l = None"

fun difusiones :: "(nat \<times> llamada) list \<Rightarrow> (nat \<times> carga) list" where
  "difusiones [] = []"
| "difusiones ((t, l) # reg) =
     (case difusion l of None \<Rightarrow> difusiones reg | Some c \<Rightarrow> (t, c) # difusiones reg)"

definition paradas :: "(nat \<times> llamada) list \<Rightarrow> (nat \<times> carga) list" where
  "paradas reg = filter (\<lambda>(t, c). \<not> p_escribiendo c) (difusiones reg)"

definition escribiendo_ids :: "estado \<Rightarrow> string list" where
  "escribiendo_ids s = map tu_usuario_id (typingUsers s)"

text \<open>
  What holds of every state the hook can reach. Each pending timer has a positive handle
  below the counter and a deadline not yet passed, and is the one its owner remembers:
  the debounce timer is the handle in \<open>typingTimeoutRef\<close>, the expiry timer of a sender
  is that sender's entry of \<open>typingTimers\<close>, except for the sender \<open>__proto__\<close>, whose
  timers the table never holds. Handles of pending timers differ, a timer that fired is
  not pending, and no sender is listed twice in \<open>typingUsers\<close>.
\<close>

definition temporizador_registrado :: "estado \<Rightarrow> temporizador \<Rightarrow> bool" where
  "temporizador_registrado s t =
     (case t_accion t of
        StopTyping \<Rightarrow> typingTimeoutRef s = Some (t_handle t)
      | ExpiraTyping usuario_id \<Rightarrow>
          usuario_id = ''__proto__'' \<or> map_of (typingTimers s) usuario_id = Some (t_handle t))"

definition invariante :: "estado \<Rightarrow> bool" where
  "invariante s \<longleftrightarrow>
     0 < siguiente s
     \<and> (\<forall>t\<in>set (pendientes s).
        0 < t_handle t \<and> t_handle t < siguiente s \<and> ahora s \<le> t_vence t
        \<and> temporizador_registrado s t)
     \<and> distinct (map t_handle (pendientes s))
     \<and> (\<forall>t\<in>set (disparados s).
           t_handle t < siguiente s \<and> t_handle t \<notin> t_handle ` set (pendientes s))
     \<and> distinct (map tu_usuario_id (typingUsers s))"

text \<open>
  The entries of a sender in \<open>typingUsers\<close>, the pending expiry timers of a sender and
  the pending debounce timers.
\<close>

definition entradas_de :: "string \<Rightarrow> estado \<Rightarrow> typing_user list" where
  "entradas_de S s = filter (\<lambda>u. tu_usuario_id u = S) (typingUsers s)"

definition expira_de :: "string \<Rightarrow> temporizador list \<Rightarrow> temporizador list" where
  "expira_de S ts = filter (\<lambda>t. t_accion t = ExpiraTyping S) ts"

definition stop_de :: "temporizador list \<Rightarrow> temporizador list" where
  "stop_de ts = filter (\<lambda>t. t_accion t = StopTyping) ts"

text \<open>The payload \<^verbatim>\<open>setTyping\<close> broadcasts for a signed-in user.\<close>

definition senal :: "usuario_auth \<Rightarrow> bool \<Rightarrow> carga" where
  "senal user b =
     \<lparr>p_usuario_id = user_id user, p_email = o_bien (user_email user) ''Desconocido'',
      p_escribiendo = b\<rparr>"

text \<open>
  Two traces: a typing event for a sender followed by refreshes after the given pauses,
  and a call of \<^verbatim>\<open>notifyTyping\<close> followed by further calls after the given pauses.
\<close>

definition refrescos :: "string \<Rightarrow> string option \<Rightarrow> nat list \<Rightarrow> evento list" where
  "refrescos S c ds = LlegaTyping S c True # concat (map (\<lambda>d. [Pasa d, LlegaTyping S c True]) ds)"

definition rafaga :: "nat list \<Rightarrow> evento list" where
  "rafaga ds = NotifyTyping # concat (map (\<lambda>d. [Pasa d, NotifyTyping]) ds)"

text \<open>Sample backends and rows, used to run the model on concrete inputs.\<close>

definition ana :: usuario_auth where
  "ana = \<lparr>user_id = ''ana'', user_email = Some ''ana@chat.org''\<rparr>"

definition fila_de :: "string \<Rightarrow> nat \<Rightarrow> fila" where
  "fila_de i t =
     \<lparr>f_id = i, f_contenido = ''hola'', f_usuario_id = ''ana'', f_created_at = t,
      f_usuario_email = None, f_usuario_rol = Some ''chef''\<rparr>"

definition con_sesion :: entorno where
  "con_sesion =
     \<lparr>e_getUser = Responde (Some ana),
      e_select = (\<lambda>q. Responde (Some (take (q_limit q) [fila_de ''m3'' 30, fila_de ''m2'' 20, fila_de ''m1'' 10]), None)),
      e_insert = (\<lambda>c u. Responde None)\<rparr>"

definition sin_sesion :: entorno where
  "sin_sesion =
     \<lparr>e_getUser = Responde None,
      e_select = (\<lambda>q. Responde (None, Some (Excepcion (Some ''sin red'')))),
      e_insert = (\<lambda>c u. Lanza (Excepcion None))\<rparr>"

section \<open>Message history and the live message callback\<close>

lemma difusiones_append: "difusiones (xs @ ys) = difusiones xs @ difusiones ys"
  by (induction xs rule: difusiones.induct) (simp_all split: option.splits)

lemma alRecibirMensaje_distinct:
  "distinct (map m_id prev) \<Longrightarrow> distinct (map m_id (alRecibirMensaje prev m))"
  by (auto simp: alRecibirMensaje_def list_ex_iff)

lemma mensajes_LlegaMensaje_distinct:
  "distinct (map m_id (mensajes s)) \<Longrightarrow> distinct (map m_id (mensajes (paso (LlegaMensaje m) s)))"
  by (simp add: alRecibirMensaje_distinct)

text \<open>
  Claim C1. Whatever insert events the live callback receives, in whatever order and
  however often the same identifier is delivered, a displayed list without repeated
  identifiers (the empty one the hook starts with, or a loaded history) is left without
  repeated identifiers.
\<close>

theorem C1_sin_duplicados:
  assumes "distinct (map m_id (mensajes s))"
  shows "distinct (map m_id (mensajes (ejecucion (map LlegaMensaje nuevos) s)))"
  using assms unfolding ejecucion_def
proof (induction nuevos arbitrary: s)
  case Nil
  then show ?case by simp
next
  case (Cons m nuevos)
  have "distinct (map m_id (mensajes (paso (LlegaMensaje m) s)))"
    using Cons.prems by (rule mensajes_LlegaMensaje_distinct)
  then show ?case
    using Cons.IH by simp
qed

theorem C1_witness:
  "distinct (map m_id (mensajes (cargarMensajes (inicial con_sesion))))
   \<and> map m_id (mensajes (cargarMensajes (inicial con_sesion))) = [''m1'', ''m2'', ''m3'']
   \<and> distinct (map m_id (mensajes (ejecucion
        (map LlegaMensaje [formatear (fila_de ''m4'' 40), formatear (fila_de ''m2'' 20),
                           formatear (fila_de ''m4'' 40)])
        (cargarMensajes (inicial con_sesion)))))"
  using C1_sin_duplicados [of "cargarMensajes (inicial con_sesion)"
      "[formatear (fila_de ''m4'' 40), formatear (fila_de ''m2'' 20), formatear (fila_de ''m4'' 40)]"]
  by (simp add: cargarMensajes_def inicial_def con_sesion_def obtenerMensajes_def
      consulta_mensajes_def formatear_def fila_de_def)

lemma sorted_wrt_rev_map:
  "sorted_wrt (\<lambda>a b. R (g b) (g a)) xs \<Longrightarrow> sorted_wrt (\<lambda>a b. R (k a) (k b)) (rev (map f xs))"
  if "\<And>x. k (f x) = g x"
  using that by (induction xs) (auto simp: sorted_wrt_append)

text \<open>
  Claim C7. \<^verbatim>\<open>obtenerMensajes(limite)\<close> asks the store for the rows of \<open>mensajes\<close> by
  descending \<open>created_at\<close> with the limit \<open>limite\<close>; when the store answers with at most
  \<open>limite\<close> rows, newest first, the result is those rows formatted and reversed: at
  most \<open>limite\<close> messages, oldest first, and strictly so when no two timestamps are equal.
\<close>

theorem C7_historial_ordenado:
  assumes "almacen (consulta_mensajes limite) = Responde (Some filas, None)"
      and "length filas \<le> limite"
      and "sorted_wrt (\<lambda>a b. f_created_at b \<le> f_created_at a) filas"
  shows "q_limit (consulta_mensajes limite) = limite \<and> \<not> q_ascending (consulta_mensajes limite)
       \<and> q_orden (consulta_mensajes limite) = ''created_at''
       \<and> obtenerMensajes almacen limite = rev (map formatear filas)
       \<and> length (obtenerMensajes almacen limite) \<le> limite
       \<and> sorted_wrt (\<lambda>a b. m_created_at a \<le> m_created_at b) (obtenerMensajes almacen limite)
       \<and> (distinct (map f_created_at filas) \<longrightarrow>
            sorted_wrt (\<lambda>a b. m_created_at a < m_created_at b) (obtenerMensajes almacen limite))"
proof -
  have eq: "obtenerMensajes almacen limite = rev (map formatear filas)"
    using assms(1) by (simp add: obtenerMensajes_def)
  have k: "\<And>x. m_created_at (formatear x) = f_created_at x"
    by (simp add: formatear_def)
  have asc: "sorted_wrt (\<lambda>a b. m_created_at a \<le> m_created_at b) (rev (map formatear filas))"
    using assms(3) sorted_wrt_rev_map[where R="(\<le>)" and g=f_created_at and k=m_created_at and f=formatear] k
    by blast
  have strict: "sorted_wrt (\<lambda>a b. m_created_at a < m_created_at b) (rev (map formatear filas))"
    if d: "distinct (map f_created_at filas)"
  proof -
    have "sorted_wrt (\<lambda>a b. f_created_at b < f_created_at a) filas"
      using assms(3) d
    proof (induction filas)
      case Nil
      then show ?case by simp
    next
      case (Cons a filas)
      have "f_created_at x < f_created_at a" if "x \<in> set filas" for x
      proof -
        have "f_created_at x \<le> f_created_at a"
          using Cons.prems(1) that by simp
        moreover have "f_created_at x \<noteq> f_created_at a"
          using Cons.prems(2) that by (auto simp: image_iff)
        ultimately show ?thesis by simp
      qed
      then show ?case
        using Cons by simp
    qed
    then show ?thesis
      using sorted_wrt_rev_map[where R="(<)" and g=f_created_at and k=m_created_at and f=formatear] k
      by blast
  qed
  show ?thesis
    using eq asc strict assms(2) by (simp add: consulta_mensajes_def)
qed

theorem C7_witness:
  "e_select con_sesion (consulta_mensajes 2) = Responde (Some [fila_de ''m3'' 30, fila_de ''m2'' 20], None)
   \<and> map m_id (obtenerMensajes (e_select con_sesion) 2) = [''m2'', ''m3'']
   \<and> map m_created_at (obtenerMensajes (e_select con_sesion) 2) = [20, 30]
   \<and> sorted_wrt (\<lambda>a b. m_created_at a < m_created_at b) (obtenerMensajes (e_select con_sesion) 2)"
  using C7_historial_ordenado [of "e_select con_sesion" 2 "[fila_de ''m3'' 30, fila_de ''m2'' 20]"]
  by (simp add: con_sesion_def consulta_mensajes_def fila_de_def formatear_def)

text \<open>
  Claim C9. When the select throws or answers with an error, \<^verbatim>\<open>obtenerMensajes\<close> returns the
  empty list, whatever data came with the error.
\<close>

theorem C9_fallo_historial:
  assumes "almacen (consulta_mensajes limite) = Lanza e
         \<or> almacen (consulta_mensajes limite) = Responde (datos, Some e)"
  shows "obtenerMensajes almacen limite = []"
  using assms by (auto simp: obtenerMensajes_def)

theorem C9_witness:
  "e_select sin_sesion (consulta_mensajes 50) = Responde (None, Some (Excepcion (Some ''sin red'')))
   \<and> obtenerMensajes (e_select sin_sesion) 50 = []"
  using C9_fallo_historial [of "e_select sin_sesion" 50 "Excepcion (Some ''sin red'')" None]
  by (simp add: sin_sesion_def)

section \<open>Sending a message\<close>

text \<open>A body trims to the empty string exactly when it consists of white space only.\<close>

lemma trim_vacio_iff: "trim s = [] \<longleftrightarrow> list_all es_espacio s"
proof
  assume t: "trim s = []"
  have "dropWhile es_espacio s = []"
  proof (rule ccontr)
    assume ne: "dropWhile es_espacio s \<noteq> []"
    then have "\<not> es_espacio (hd (dropWhile es_espacio s))"
      by (rule hd_dropWhile)
    moreover have "hd (dropWhile es_espacio s) \<in> set (rev (dropWhile es_espacio s))"
      using ne by simp
    moreover have "\<forall>x\<in>set (rev (dropWhile es_espacio s)). es_espacio x"
      using t by (simp add: trim_def dropWhile_eq_Nil_conv)
    ultimately show False by blast
  qed
  then show "list_all es_espacio s"
    by (simp add: dropWhile_eq_Nil_conv list_all_iff)
next
  assume "list_all es_espacio s"
  then have "dropWhile es_espacio s = []"
    by (simp add: dropWhile_eq_Nil_conv list_all_iff)
  then show "trim s = []"
    by (simp add: trim_def del: dropWhile_eq_Nil_conv)
qed

text \<open>
  Claim C8. For a body that trims to the empty string, the hook's \<^verbatim>\<open>enviarMensaje\<close> returns
  the validation failure and leaves the state as it was: no request is recorded, so no
  identity lookup, no insert and no typing signal.
\<close>

theorem C8_cuerpo_vacio:
  assumes "trim contenido = []"
  shows "useChat_enviarMensaje r_user1 r_insert r_user2 contenido s =
           (\<lparr>success = False, error = Some mensaje_vacio\<rparr>, s)
       \<and> registro (snd (useChat_enviarMensaje r_user1 r_insert r_user2 contenido s)) = registro s"
  using assms by (simp add: useChat_enviarMensaje_def)

theorem C8_witness:
  "trim [CHR 0x20, CHR 0x09, CHR 0x0A] = []
   \<and> useChat_enviarMensaje (Responde (Some ana)) (\<lambda>c u. Responde None) (Responde (Some ana))
        [CHR 0x20, CHR 0x09, CHR 0x0A] (inicial con_sesion)
      = (\<lparr>success = False, error = Some mensaje_vacio\<rparr>, inicial con_sesion)"
  using C8_cuerpo_vacio [of "[CHR 0x20, CHR 0x09, CHR 0x0A]" "Responde (Some ana)"
      "\<lambda>c u. Responde None" "Responde (Some ana)" "inicial con_sesion"]
  by (simp add: trim_def es_espacio_def)

lemma difusiones_setTyping:
  "difusiones (map (Pair t) (snd (setTyping r canal b))) =
     (case r of
        Responde (Some user) \<Rightarrow>
          [(t, \<lparr>p_usuario_id = user_id user, p_email = o_bien (user_email user) ''Desconocido'',
                p_escribiendo = b\<rparr>)]
      | _ \<Rightarrow> [])"
  by (simp add: setTyping_def split: respuesta.splits option.splits)

lemma difusiones_ChatUseCase_enviarMensaje:
  "difusiones (map (Pair t) (snd (ChatUseCase_enviarMensaje r ri c))) = []"
  by (simp add: ChatUseCase_enviarMensaje_def split: respuesta.splits option.splits)

lemma registro_useChat_enviarMensaje:
  "registro (snd (useChat_enviarMensaje r_user1 r_insert r_user2 contenido s)) =
     registro s @
     (if trim contenido = [] then []
      else map (Pair (ahora s))
             (snd (ChatUseCase_enviarMensaje r_user1 r_insert contenido) @
              snd (setTyping r_user2 (typingChannel s) False)))"
  by (simp add: useChat_enviarMensaje_def publicar_con_def split: prod.splits)

text \<open>
  Claim C10, amended. For a body that does not trim to the empty string, the hook's
  \<^verbatim>\<open>enviarMensaje\<close> issues the requests of the insert attempt and then those of
  \<^verbatim>\<open>setTyping(false)\<close>, whatever the insert attempt gave. A typing signal goes out, with
  \<open>escribiendo = false\<close>, exactly when the identity lookup of \<^verbatim>\<open>setTyping\<close> resolves to a
  user; with no user, or a lookup that throws, none does. For a body that trims to the
  empty string nothing is issued.
\<close>

theorem C10_stop_al_enviar:
  "registro (snd (useChat_enviarMensaje r_user1 r_insert r_user2 contenido s)) =
     registro s @
     (if trim contenido = [] then []
      else map (Pair (ahora s))
             (snd (ChatUseCase_enviarMensaje r_user1 r_insert contenido) @
              snd (setTyping r_user2 (typingChannel s) False)))
   \<and> difusiones (registro (snd (useChat_enviarMensaje r_user1 r_insert r_user2 contenido s))) =
     difusiones (registro s) @
     (if trim contenido = [] then []
      else case r_user2 of
             Responde (Some user) \<Rightarrow>
               [(ahora s, \<lparr>p_usuario_id = user_id user,
                           p_email = o_bien (user_email user) ''Desconocido'',
                           p_escribiendo = False\<rparr>)]
           | _ \<Rightarrow> [])"
  by (simp only: registro_useChat_enviarMensaje difusiones_append map_append
        difusiones_setTyping difusiones_ChatUseCase_enviarMensaje difusiones.simps
        append_Nil append_Nil2 if_distrib[of difusiones] split: if_splits)

theorem C10_witness:
  "difusiones (registro (snd (useChat_enviarMensaje (Responde None) (\<lambda>c u. Lanza (Excepcion None))
        (Responde (Some ana)) ''hola'' (inicial sin_sesion)))) =
     [(0, \<lparr>p_usuario_id = ''ana'', p_email = ''ana@chat.org'', p_escribiendo = False\<rparr>)]"
  using C10_stop_al_enviar [of "Responde None" "\<lambda>c u. Lanza (Excepcion None)"
      "Responde (Some ana)" "''hola''" "inicial sin_sesion", THEN conjunct2]
  by (simp add: trim_def es_espacio_def inicial_def ana_def o_bien_def)

text \<open>
  Claim C10 as stated fails when nobody is signed in: a body \<open>hola\<close> sent then looks the
  identity up twice and publishes nothing.
\<close>

theorem C10_contraejemplo:
  "trim ''hola'' \<noteq> []
   \<and> map snd (registro (snd (useChat_enviarMensaje (Responde None) (\<lambda>c u. Responde None)
        (Responde None) ''hola'' (inicial sin_sesion)))) = [GetUser, GetUser]
   \<and> difusiones (registro (snd (useChat_enviarMensaje (Responde None) (\<lambda>c u. Responde None)
        (Responde None) ''hola'' (inicial sin_sesion)))) = []"
  by (simp add: trim_def es_espacio_def useChat_enviarMensaje_def ChatUseCase_enviarMensaje_def
      publicar_con_def setTyping_def inicial_def)

section \<open>Timers: what every reachable state satisfies\<close>

lemma proximo_Some:
  assumes "proximo limite ts = Some t"
  shows "t \<in> set ts" and "t_vence t \<le> limite" and "\<forall>u\<in>set ts. t_vence t \<le> t_vence u"
  using assms by (auto simp: proximo_def find_Some_iff list_all_iff)

lemma proximo_None:
  assumes "proximo limite ts = None" and "t \<in> set ts"
  shows "limite < t_vence t"
proof (rule ccontr)
  assume "\<not> limite < t_vence t"
  then have due: "t_vence t \<le> limite" by simp
  have ne: "ts \<noteq> []" using assms(2) by auto
  let ?m = "arg_min_list t_vence ts"
  have m_in: "?m \<in> set ts"
    using ne by (rule arg_min_list_in)
  have m_min: "\<forall>u\<in>set ts. t_vence ?m \<le> t_vence u"
    using ne by (simp add: f_arg_min_list_f)
  then have "t_vence ?m \<le> limite"
    using due assms(2) by (meson le_trans)
  then show False
    using assms(1) m_in m_min by (auto simp: proximo_def find_None_iff list_all_iff)
qed

lemma pendientes_ejecutar [simp]: "pendientes (ejecutar a s) = pendientes s"
  by (cases a) (simp_all add: publicar_def publicar_con_def split: prod.splits)

lemma siguiente_ejecutar [simp]: "siguiente (ejecutar a s) = siguiente s"
  by (cases a) (simp_all add: publicar_def publicar_con_def split: prod.splits)

lemma ahora_ejecutar [simp]: "ahora (ejecutar a s) = ahora s"
  by (cases a) (simp_all add: publicar_def publicar_con_def split: prod.splits)

lemma disparados_ejecutar [simp]: "disparados (ejecutar a s) = disparados s"
  by (cases a) (simp_all add: publicar_def publicar_con_def split: prod.splits)

lemma entorno_ejecutar [simp]: "entorno_actual (ejecutar a s) = entorno_actual s"
  by (cases a) (simp_all add: publicar_def publicar_con_def split: prod.splits)

lemma oye_ejecutar [simp]:
  "oyeTyping (ejecutar a s) = oyeTyping s" "oyeMensajes (ejecutar a s) = oyeMensajes s"
  by (cases a; simp add: publicar_def publicar_con_def split: prod.splits)+

lemma mensajes_ejecutar [simp]: "mensajes (ejecutar a s) = mensajes s"
  by (cases a) (simp_all add: publicar_def publicar_con_def split: prod.splits)

lemma typingUsers_ejecutar:
  "typingUsers (ejecutar a s) =
     (case a of ExpiraTyping u \<Rightarrow> filter (\<lambda>x. tu_usuario_id x \<noteq> u) (typingUsers s)
              | StopTyping \<Rightarrow> typingUsers s)"
  by (cases a) (simp_all add: publicar_def publicar_con_def split: prod.splits)

lemma typingTimers_ejecutar:
  "typingTimers (ejecutar a s) =
     (case a of ExpiraTyping u \<Rightarrow> AList.delete u (typingTimers s) | StopTyping \<Rightarrow> typingTimers s)"
  by (cases a) (simp_all add: publicar_def publicar_con_def split: prod.splits)

lemma typingTimeoutRef_ejecutar:
  "typingTimeoutRef (ejecutar a s) =
     (case a of ExpiraTyping u \<Rightarrow> typingTimeoutRef s | StopTyping \<Rightarrow> None)"
  by (cases a) (simp_all add: publicar_def publicar_con_def split: prod.splits)

lemma registro_ejecutar:
  "registro (ejecutar a s) =
     (case a of
        ExpiraTyping u \<Rightarrow> registro s
      | StopTyping \<Rightarrow>
          registro s @ map (Pair (ahora s)) (snd (setTyping (e_getUser (entorno_actual s)) (typingChannel s) False)))"
  by (cases a) (simp_all add: publicar_def publicar_con_def split: prod.splits)

lemma correr_preserva:
  assumes "I s"
      and "\<And>s t. I s \<Longrightarrow> proximo limite (pendientes s) = Some t \<Longrightarrow> I (disparar t s)"
      and "\<And>s. I s \<Longrightarrow> proximo limite (pendientes s) = None \<Longrightarrow> I (s\<lparr>ahora := max (ahora s) limite\<rparr>)"
  shows "I (correr limite s)"
  using assms
proof (induction limite s rule: correr.induct)
  case (1 limite s)
  show ?case
  proof (cases "proximo limite (pendientes s)")
    case None
    then show ?thesis
      using "1.prems"(3)[OF "1.prems"(1) None] by (simp add: correr.simps[of limite s])
  next
    case (Some t)
    have "I (disparar t s)"
      using "1.prems"(2)[OF "1.prems"(1) Some] .
    then have "I (correr limite (disparar t s))"
      using "1.IH"[OF Some] "1.prems"(2,3) by blast
    then show ?thesis
      using Some by (simp add: correr.simps[of limite s])
  qed
qed

lemma invariante_disparar:
  assumes "invariante s" and "proximo limite (pendientes s) = Some t"
  shows "invariante (disparar t s)"
proof -
  note p = proximo_Some[OF assms(2)]
  have reg: "temporizador_registrado s t"
    using assms(1) p(1) by (simp add: invariante_def)
  have uniq: "u = t" if "u \<in> set (pendientes s)" "t_handle u = t_handle t" for u
    using assms(1) p(1) that by (auto simp: invariante_def distinct_map inj_on_def)
  have regu: "temporizador_registrado (disparar t s) u"
    if u: "u \<in> set (pendientes s)" "t_handle u \<noteq> t_handle t" for u
  proof -
    have ru: "temporizador_registrado s u"
      using assms(1) u(1) by (simp add: invariante_def)
    show ?thesis
      using ru reg u(2)
      by (auto simp: temporizador_registrado_def disparar_def typingTimers_ejecutar
          typingTimeoutRef_ejecutar delete_conv split: accion.splits)
  qed
  show ?thesis
    unfolding invariante_def
  proof (intro conjI ballI)
    show "0 < siguiente (disparar t s)"
      using assms(1) by (simp add: invariante_def disparar_def)
  next
    fix u assume "u \<in> set (pendientes (disparar t s))"
    then have u: "u \<in> set (pendientes s)" "t_handle u \<noteq> t_handle t"
      by (simp_all add: disparar_def)
    show "0 < t_handle u" "t_handle u < siguiente (disparar t s)"
      using assms(1) u(1) by (simp_all add: invariante_def disparar_def)
    show "ahora (disparar t s) \<le> t_vence u"
      using assms(1) u(1) p(3) by (simp add: invariante_def disparar_def)
    show "temporizador_registrado (disparar t s) u"
      using regu u by simp
  next
    show "distinct (map t_handle (pendientes (disparar t s)))"
      using assms(1) by (simp add: invariante_def disparar_def distinct_map_filter)
  next
    fix u assume "u \<in> set (disparados (disparar t s))"
    then have "u \<in> set (disparados s) \<or> u = t"
      by (auto simp: disparar_def)
    then show "t_handle u < siguiente (disparar t s)"
      using assms(1) p(1) by (auto simp: invariante_def disparar_def)
    show "t_handle u \<notin> t_handle ` set (pendientes (disparar t s))"
      using assms(1) \<open>u \<in> set (disparados s) \<or> u = t\<close>
      by (auto simp: invariante_def disparar_def)
  next
    show "distinct (map tu_usuario_id (typingUsers (disparar t s)))"
      using assms(1)
      by (auto simp: invariante_def disparar_def typingUsers_ejecutar distinct_map_filter
          split: accion.splits)
  qed
qed

lemma invariante_fin:
  assumes "invariante s" and "proximo limite (pendientes s) = None"
  shows "invariante (s\<lparr>ahora := max (ahora s) limite\<rparr>)"
  using assms(1) proximo_None[OF assms(2)]
  by (auto simp: invariante_def temporizador_registrado_def less_imp_le split: accion.splits)

lemma invariante_correr: "invariante s \<Longrightarrow> invariante (correr limite s)"
  by (rule correr_preserva[where I=invariante]) (auto intro: invariante_disparar invariante_fin)


subsection \<open>The callbacks\<close>

lemma pendientes_limpiar_si:
  "pendientes (limpiar_si r s) =
     filter (\<lambda>t. \<not> (r = Some (t_handle t) \<and> t_handle t \<noteq> 0)) (pendientes s)"
  by (cases r) (auto simp: limpiar_si_def clearTimeout_def intro: filter_cong)

lemma campos_limpiar_si [simp]:
  "siguiente (limpiar_si r s) = siguiente s"
  "ahora (limpiar_si r s) = ahora s"
  "disparados (limpiar_si r s) = disparados s"
  "registro (limpiar_si r s) = registro s"
  "typingUsers (limpiar_si r s) = typingUsers s"
  "typingTimers (limpiar_si r s) = typingTimers s"
  "typingTimeoutRef (limpiar_si r s) = typingTimeoutRef s"
  "entorno_actual (limpiar_si r s) = entorno_actual s"
  "typingChannel (limpiar_si r s) = typingChannel s"
  "oyeTyping (limpiar_si r s) = oyeTyping s"
  "oyeMensajes (limpiar_si r s) = oyeMensajes s"
  "mensajes (limpiar_si r s) = mensajes s"
  by (simp_all add: limpiar_si_def clearTimeout_def split: option.splits)

lemma campos_publicar [simp]:
  "pendientes (publicar b s) = pendientes s"
  "siguiente (publicar b s) = siguiente s"
  "ahora (publicar b s) = ahora s"
  "disparados (publicar b s) = disparados s"
  "typingUsers (publicar b s) = typingUsers s"
  "typingTimers (publicar b s) = typingTimers s"
  "typingTimeoutRef (publicar b s) = typingTimeoutRef s"
  "entorno_actual (publicar b s) = entorno_actual s"
  "oyeTyping (publicar b s) = oyeTyping s"
  by (simp_all add: publicar_def publicar_con_def split: prod.splits)

lemma registro_publicar:
  "registro (publicar b s) =
     registro s @ map (Pair (ahora s)) (snd (setTyping (e_getUser (entorno_actual s)) (typingChannel s) b))"
  by (simp add: publicar_def publicar_con_def split: prod.splits)

lemma pendientes_notifyTyping:
  "pendientes (notifyTyping s) =
     filter (\<lambda>t. \<not> (typingTimeoutRef s = Some (t_handle t) \<and> t_handle t \<noteq> 0)) (pendientes s)
     @ [\<lparr>t_handle = siguiente s, t_vence = ahora s + 1500, t_accion = StopTyping\<rparr>]"
  by (simp add: notifyTyping_def setTimeout_def pendientes_limpiar_si Let_def)

lemma campos_notifyTyping [simp]:
  "siguiente (notifyTyping s) = Suc (siguiente s)"
  "ahora (notifyTyping s) = ahora s"
  "disparados (notifyTyping s) = disparados s"
  "typingUsers (notifyTyping s) = typingUsers s"
  "typingTimers (notifyTyping s) = typingTimers s"
  "typingTimeoutRef (notifyTyping s) = Some (siguiente s)"
  "entorno_actual (notifyTyping s) = entorno_actual s"
  "oyeTyping (notifyTyping s) = oyeTyping s"
  "registro (notifyTyping s) = registro (publicar True s)"
  by (simp_all add: notifyTyping_def setTimeout_def Let_def)

lemma invarianteD:
  assumes "invariante s" and "t \<in> set (pendientes s)"
  shows "0 < t_handle t" and "t_handle t < siguiente s" and "ahora s \<le> t_vence t"
    and "temporizador_registrado s t"
  using assms by (simp_all add: invariante_def)

lemma invariante_disparadosD:
  assumes "invariante s" and "t \<in> set (disparados s)"
  shows "t_handle t < siguiente s" and "t_handle t \<notin> t_handle ` set (pendientes s)"
  using assms by (simp_all add: invariante_def)

lemma invariante_notifyTyping:
  assumes "invariante s"
  shows "invariante (notifyTyping s)"
  unfolding invariante_def
proof (intro conjI)
  show "0 < siguiente (notifyTyping s)" by simp
next
  show "\<forall>t\<in>set (pendientes (notifyTyping s)).
      0 < t_handle t \<and> t_handle t < siguiente (notifyTyping s)
      \<and> ahora (notifyTyping s) \<le> t_vence t \<and> temporizador_registrado (notifyTyping s) t"
  proof
  fix t assume "t \<in> set (pendientes (notifyTyping s))"
  then consider (viejo) "t \<in> set (pendientes s)"
        "\<not> (typingTimeoutRef s = Some (t_handle t) \<and> t_handle t \<noteq> 0)"
    | (nuevo) "t = \<lparr>t_handle = siguiente s, t_vence = ahora s + 1500, t_accion = StopTyping\<rparr>"
    by (auto simp: pendientes_notifyTyping)
  then show "0 < t_handle t \<and> t_handle t < siguiente (notifyTyping s)
      \<and> ahora (notifyTyping s) \<le> t_vence t \<and> temporizador_registrado (notifyTyping s) t"
  proof cases
    case viejo
    note d = invarianteD[OF assms viejo(1)]
    have "t_accion t \<noteq> StopTyping"
      using d(1,4) viejo(2) by (auto simp: temporizador_registrado_def)
    then have "temporizador_registrado (notifyTyping s) t"
      using d(4) by (auto simp: temporizador_registrado_def split: accion.splits)
    then show ?thesis using d by simp
  next
    case nuevo
    then show ?thesis
      using assms by (simp add: temporizador_registrado_def invariante_def)
  qed
  qed
next
  have "siguiente s \<notin> t_handle ` set (pendientes s)"
    using invarianteD(2)[OF assms] by fastforce
  then show "distinct (map t_handle (pendientes (notifyTyping s)))"
    using assms by (auto simp: invariante_def pendientes_notifyTyping distinct_map_filter)
next
  show "\<forall>t\<in>set (disparados (notifyTyping s)).
      t_handle t < siguiente (notifyTyping s)
      \<and> t_handle t \<notin> t_handle ` set (pendientes (notifyTyping s))"
  proof
  fix t assume t: "t \<in> set (disparados (notifyTyping s))"
  then have t': "t \<in> set (disparados s)" by simp
  note d = invariante_disparadosD[OF assms t']
  show "t_handle t < siguiente (notifyTyping s)
      \<and> t_handle t \<notin> t_handle ` set (pendientes (notifyTyping s))"
    using d by (auto simp: pendientes_notifyTyping)
  qed
next
  show "distinct (map tu_usuario_id (typingUsers (notifyTyping s)))"
    using assms by (simp add: invariante_def)
qed

lemma pendientes_alRecibirTyping:
  "pendientes (alRecibirTyping u c b s) =
     filter (\<lambda>t. \<not> (map_of (typingTimers s) u = Some (t_handle t) \<and> t_handle t \<noteq> 0)) (pendientes s)
     @ (if b then [\<lparr>t_handle = siguiente s, t_vence = ahora s + 3000, t_accion = ExpiraTyping u\<rparr>] else [])"
  by (cases "map_of (typingTimers s) u")
     (auto simp: alRecibirTyping_def setTimeout_def Let_def clearTimeout_def clearTimeout_valor_def
        leer_def intro: filter_cong)

lemma campos_alRecibirTyping [simp]:
  "siguiente (alRecibirTyping u c b s) = (if b then Suc (siguiente s) else siguiente s)"
  "ahora (alRecibirTyping u c b s) = ahora s"
  "disparados (alRecibirTyping u c b s) = disparados s"
  "registro (alRecibirTyping u c b s) = registro s"
  "typingTimeoutRef (alRecibirTyping u c b s) = typingTimeoutRef s"
  "entorno_actual (alRecibirTyping u c b s) = entorno_actual s"
  "oyeTyping (alRecibirTyping u c b s) = oyeTyping s"
  "typingChannel (alRecibirTyping u c b s) = typingChannel s"
  by (simp_all add: alRecibirTyping_def setTimeout_def Let_def clearTimeout_def
      clearTimeout_valor_def split: valor_js.splits)

lemma typingUsers_alRecibirTyping:
  "typingUsers (alRecibirTyping u c b s) =
     (if b then
        (if u \<in> set (map tu_usuario_id (typingUsers s)) then typingUsers s
         else typingUsers s @ [\<lparr>tu_usuario_id = u, tu_email = c\<rparr>])
      else filter (\<lambda>x. tu_usuario_id x \<noteq> u) (typingUsers s))"
  by (auto simp: alRecibirTyping_def setTimeout_def Let_def clearTimeout_def list_ex_iff
      clearTimeout_valor_def split: valor_js.splits)

lemma map_of_typingTimers_alRecibirTyping:
  "map_of (typingTimers (alRecibirTyping u c b s)) v =
     (if b then (if v = u \<and> u \<noteq> ''__proto__'' then Some (siguiente s) else map_of (typingTimers s) v)
      else (if v = u \<and> map_of (typingTimers s) u \<noteq> Some 0 then None else map_of (typingTimers s) v))"
  by (cases "map_of (typingTimers s) u")
     (auto simp: alRecibirTyping_def setTimeout_def Let_def clearTimeout_def clearTimeout_valor_def
        leer_def escribir_def update_conv delete_conv)

lemma invariante_alRecibirTyping:
  assumes "invariante s"
  shows "invariante (alRecibirTyping u c b s)"
  unfolding invariante_def
proof (intro conjI)
  show "0 < siguiente (alRecibirTyping u c b s)"
    using assms by (simp add: invariante_def)
next
  show "\<forall>t\<in>set (pendientes (alRecibirTyping u c b s)).
      0 < t_handle t \<and> t_handle t < siguiente (alRecibirTyping u c b s)
      \<and> ahora (alRecibirTyping u c b s) \<le> t_vence t \<and> temporizador_registrado (alRecibirTyping u c b s) t"
  proof
  fix t assume "t \<in> set (pendientes (alRecibirTyping u c b s))"
  then consider (viejo) "t \<in> set (pendientes s)"
        "\<not> (map_of (typingTimers s) u = Some (t_handle t) \<and> t_handle t \<noteq> 0)"
    | (nuevo) "b" "t = \<lparr>t_handle = siguiente s, t_vence = ahora s + 3000, t_accion = ExpiraTyping u\<rparr>"
    by (auto simp: pendientes_alRecibirTyping split: if_splits)
  then show "0 < t_handle t \<and> t_handle t < siguiente (alRecibirTyping u c b s)
      \<and> ahora (alRecibirTyping u c b s) \<le> t_vence t
      \<and> temporizador_registrado (alRecibirTyping u c b s) t"
  proof cases
    case viejo
    note d = invarianteD[OF assms viejo(1)]
    have "temporizador_registrado (alRecibirTyping u c b s) t"
      using d(1,4) viejo(2)
      by (auto simp: temporizador_registrado_def map_of_typingTimers_alRecibirTyping
          split: accion.splits)
    then show ?thesis using d by simp
  next
    case nuevo
    then show ?thesis
      using assms
      by (simp add: temporizador_registrado_def invariante_def map_of_typingTimers_alRecibirTyping)
  qed
  qed
next
  have "siguiente s \<notin> t_handle ` set (pendientes s)"
    using invarianteD(2)[OF assms] by fastforce
  then show "distinct (map t_handle (pendientes (alRecibirTyping u c b s)))"
    using assms by (auto simp: invariante_def pendientes_alRecibirTyping distinct_map_filter)
next
  show "\<forall>t\<in>set (disparados (alRecibirTyping u c b s)).
      t_handle t < siguiente (alRecibirTyping u c b s)
      \<and> t_handle t \<notin> t_handle ` set (pendientes (alRecibirTyping u c b s))"
  proof
  fix t assume t: "t \<in> set (disparados (alRecibirTyping u c b s))"
  then have t': "t \<in> set (disparados s)" by simp
  note d = invariante_disparadosD[OF assms t']
  show "t_handle t < siguiente (alRecibirTyping u c b s)
      \<and> t_handle t \<notin> t_handle ` set (pendientes (alRecibirTyping u c b s))"
    using d by (auto simp: pendientes_alRecibirTyping)
  qed
next
  show "distinct (map tu_usuario_id (typingUsers (alRecibirTyping u c b s)))"
    using assms by (auto simp: invariante_def typingUsers_alRecibirTyping distinct_map_filter)
qed


lemma fold_clearTimeout:
  "fold clearTimeout hs s = s\<lparr>pendientes := filter (\<lambda>t. t_handle t \<notin> set hs) (pendientes s)\<rparr>"
proof (induction hs arbitrary: s)
  case Nil
  then show ?case by simp
next
  case (Cons h hs)
  have "fold clearTimeout (h # hs) s = fold clearTimeout hs (clearTimeout h s)"
    by simp
  also have "\<dots> = (clearTimeout h s)\<lparr>pendientes :=
      filter (\<lambda>t. t_handle t \<notin> set hs) (pendientes (clearTimeout h s))\<rparr>"
    by (rule Cons.IH)
  also have "\<dots> = s\<lparr>pendientes := filter (\<lambda>t. t_handle t \<notin> set (h # hs)) (pendientes s)\<rparr>"
    by (auto simp: clearTimeout_def intro: filter_cong)
  finally show ?case .
qed

lemma pendientes_desmontar:
  "pendientes (desmontar s) =
     filter (\<lambda>t. t_handle t \<notin> snd ` set (typingTimers s))
       (filter (\<lambda>t. \<not> (typingTimeoutRef s = Some (t_handle t) \<and> t_handle t \<noteq> 0)) (pendientes s))"
  by (simp add: desmontar_def Let_def fold_clearTimeout pendientes_limpiar_si)

lemma campos_desmontar [simp]:
  "siguiente (desmontar s) = siguiente s"
  "ahora (desmontar s) = ahora s"
  "disparados (desmontar s) = disparados s"
  "registro (desmontar s) = registro s"
  "typingUsers (desmontar s) = typingUsers s"
  "typingTimers (desmontar s) = []"
  "typingTimeoutRef (desmontar s) = typingTimeoutRef s"
  "entorno_actual (desmontar s) = entorno_actual s"
  "mensajes (desmontar s) = mensajes s"
  "oyeMensajes (desmontar s) = False"
  by (simp_all add: desmontar_def Let_def fold_clearTimeout)

lemma pendientes_desmontar_subset: "set (pendientes (desmontar s)) \<subseteq> set (pendientes s)"
  by (auto simp: pendientes_desmontar)

lemma pendientes_desmontar_proto:
  assumes "invariante s" and "t \<in> set (pendientes (desmontar s))"
  shows "t_accion t = ExpiraTyping ''__proto__''"
proof -
  have t: "t \<in> set (pendientes s)"
    and no_tabla: "t_handle t \<notin> snd ` set (typingTimers s)"
    and no_ref: "\<not> (typingTimeoutRef s = Some (t_handle t) \<and> t_handle t \<noteq> 0)"
    using assms(2) by (simp_all add: pendientes_desmontar)
  show ?thesis
  proof (cases "t_accion t")
    case (ExpiraTyping u)
    have "u = ''__proto__''"
    proof (rule ccontr)
      assume "u \<noteq> ''__proto__''"
      then have "map_of (typingTimers s) u = Some (t_handle t)"
        using invarianteD(4)[OF assms(1) t] ExpiraTyping by (simp add: temporizador_registrado_def)
      then have "(u, t_handle t) \<in> set (typingTimers s)"
        by (rule map_of_SomeD)
      then show False using no_tabla by force
    qed
    then show ?thesis using ExpiraTyping by simp
  next
    case StopTyping
    then show ?thesis
      using invarianteD(1,4)[OF assms(1) t] no_ref by (simp add: temporizador_registrado_def)
  qed
qed

lemma pendientes_desmontar_vacio:
  assumes "invariante s" and "\<forall>t\<in>set (pendientes s). t_accion t \<noteq> ExpiraTyping ''__proto__''"
  shows "pendientes (desmontar s) = []"
proof (rule ccontr)
  assume "pendientes (desmontar s) \<noteq> []"
  then obtain t where t: "t \<in> set (pendientes (desmontar s))"
    by (meson last_in_set)
  then have "t_accion t = ExpiraTyping ''__proto__''"
    using assms(1) by (intro pendientes_desmontar_proto)
  moreover have "t \<in> set (pendientes s)"
    using t pendientes_desmontar_subset by blast
  ultimately show False using assms(2) by blast
qed

lemma invariante_desmontar:
  assumes "invariante s"
  shows "invariante (desmontar s)"
  unfolding invariante_def
proof (intro conjI)
  show "0 < siguiente (desmontar s)"
    using assms by (simp add: invariante_def)
next
  show "\<forall>t\<in>set (pendientes (desmontar s)).
      0 < t_handle t \<and> t_handle t < siguiente (desmontar s)
      \<and> ahora (desmontar s) \<le> t_vence t \<and> temporizador_registrado (desmontar s) t"
  proof
    fix t assume t: "t \<in> set (pendientes (desmontar s))"
    then have t0: "t \<in> set (pendientes s)"
      using pendientes_desmontar_subset by blast
    have "temporizador_registrado (desmontar s) t"
      using pendientes_desmontar_proto[OF assms t] by (simp add: temporizador_registrado_def)
    then show "0 < t_handle t \<and> t_handle t < siguiente (desmontar s)
      \<and> ahora (desmontar s) \<le> t_vence t \<and> temporizador_registrado (desmontar s) t"
      using invarianteD(1,2,3)[OF assms t0] by simp
  qed
next
  show "distinct (map t_handle (pendientes (desmontar s)))"
    using assms by (simp add: invariante_def pendientes_desmontar distinct_map_filter)
next
  show "\<forall>t\<in>set (disparados (desmontar s)).
      t_handle t < siguiente (desmontar s)
      \<and> t_handle t \<notin> t_handle ` set (pendientes (desmontar s))"
  proof
    fix t assume "t \<in> set (disparados (desmontar s))"
    then have t': "t \<in> set (disparados s)" by simp
    note d = invariante_disparadosD[OF assms t']
    show "t_handle t < siguiente (desmontar s)
      \<and> t_handle t \<notin> t_handle ` set (pendientes (desmontar s))"
      using d pendientes_desmontar_subset[of s] by auto
  qed
next
  show "distinct (map tu_usuario_id (typingUsers (desmontar s)))"
    using assms by (simp add: invariante_def)
qed

lemma campos_enviarMensaje [simp]:
  "pendientes (snd (enviarMensaje c s)) = pendientes s"
  "siguiente (snd (enviarMensaje c s)) = siguiente s"
  "ahora (snd (enviarMensaje c s)) = ahora s"
  "disparados (snd (enviarMensaje c s)) = disparados s"
  "typingUsers (snd (enviarMensaje c s)) = typingUsers s"
  "typingTimers (snd (enviarMensaje c s)) = typingTimers s"
  "typingTimeoutRef (snd (enviarMensaje c s)) = typingTimeoutRef s"
  "entorno_actual (snd (enviarMensaje c s)) = entorno_actual s"
  "oyeTyping (snd (enviarMensaje c s)) = oyeTyping s"
  "mensajes (snd (enviarMensaje c s)) = mensajes s"
  by (simp_all add: enviarMensaje_def useChat_enviarMensaje_def publicar_con_def Let_def
      split: prod.splits)

lemma campos_cargarMensajes [simp]:
  "pendientes (cargarMensajes s) = pendientes s"
  "siguiente (cargarMensajes s) = siguiente s"
  "ahora (cargarMensajes s) = ahora s"
  "disparados (cargarMensajes s) = disparados s"
  "typingUsers (cargarMensajes s) = typingUsers s"
  "typingTimers (cargarMensajes s) = typingTimers s"
  "typingTimeoutRef (cargarMensajes s) = typingTimeoutRef s"
  "entorno_actual (cargarMensajes s) = entorno_actual s"
  "oyeTyping (cargarMensajes s) = oyeTyping s"
  by (simp_all add: cargarMensajes_def)

lemma invariante_cong:
  assumes "invariante s"
      and "pendientes s' = pendientes s" "siguiente s' = siguiente s" "ahora s' = ahora s"
      and "disparados s' = disparados s" "typingUsers s' = typingUsers s"
      and "typingTimers s' = typingTimers s" "typingTimeoutRef s' = typingTimeoutRef s"
  shows "invariante s'"
  using assms by (simp add: invariante_def temporizador_registrado_def split: accion.splits)

lemma invariante_avanzar: "invariante s \<Longrightarrow> invariante (avanzar dt s)"
  by (simp add: avanzar_def invariante_correr)

lemma invariante_inicial: "invariante (inicial e)"
  by (simp add: invariante_def inicial_def)

lemma invariante_paso: "invariante s \<Longrightarrow> invariante (paso ev s)"
proof (cases ev)
  case (Pasa dt)
  assume "invariante s"
  then show ?thesis using Pasa by (simp add: invariante_avanzar)
next
  case (CambiaEntorno e)
  assume "invariante s"
  then show ?thesis using CambiaEntorno by (auto intro: invariante_cong)
next
  case CargarMensajes
  assume "invariante s"
  then show ?thesis using CargarMensajes by (auto intro: invariante_cong)
next
  case (LlegaMensaje m)
  assume "invariante s"
  then show ?thesis using LlegaMensaje by (auto intro: invariante_cong)
next
  case (LlegaTyping u c b)
  assume "invariante s"
  then show ?thesis using LlegaTyping by (simp add: invariante_alRecibirTyping)
next
  case NotifyTyping
  assume "invariante s"
  then show ?thesis using NotifyTyping by (simp add: invariante_notifyTyping)
next
  case (EnviarMensaje c)
  assume "invariante s"
  then show ?thesis using EnviarMensaje by (auto intro: invariante_cong)
next
  case Desmontar
  assume "invariante s"
  then show ?thesis using Desmontar by (simp add: invariante_desmontar)
qed

lemma invariante_ejecucion: "invariante s \<Longrightarrow> invariante (ejecucion evs s)"
  unfolding ejecucion_def
  by (induction evs arbitrary: s) (simp_all add: invariante_paso)

lemma invariante_alcanzable: "invariante (ejecucion evs (inicial e))"
  by (simp add: invariante_ejecucion invariante_inicial)

lemma correr_sin_pendientes:
  "pendientes s = [] \<Longrightarrow> correr limite s = s\<lparr>ahora := max (ahora s) limite\<rparr>"
  by (simp add: correr.simps[of limite s] proximo_def)

section \<open>Teardown\<close>

text \<open>
  Claim C4, amended. In every state the hook can reach, the cleanup leaves the timer
  table empty and the list of typing users as it was (the cleanup does not write it).
  No debounce timer and no expiry timer of a sender the table holds is pending after it:
  whatever is still pending is an expiry timer of the sender \<open>__proto__\<close>. When no such
  timer was pending, nothing is pending after the cleanup and the passing of time changes
  nothing but the clock: no timer fires.
\<close>

theorem C4_desmontar:
  fixes evs :: "evento list" and e :: entorno and dt :: nat
  defines "s \<equiv> ejecucion evs (inicial e)"
  shows "typingTimers (paso Desmontar s) = []
       \<and> typingUsers (paso Desmontar s) = typingUsers s
       \<and> (\<forall>t\<in>set (pendientes (paso Desmontar s)). t_accion t = ExpiraTyping ''__proto__'')
       \<and> ((\<forall>t\<in>set (pendientes s). t_accion t \<noteq> ExpiraTyping ''__proto__'') \<longrightarrow>
            pendientes (paso Desmontar s) = []
            \<and> paso (Pasa dt) (paso Desmontar s) = (paso Desmontar s)\<lparr>ahora := ahora s + dt\<rparr>)"
proof -
  have inv: "invariante s"
    unfolding s_def by (rule invariante_alcanzable)
  have a: "\<forall>t\<in>set (pendientes (paso Desmontar s)). t_accion t = ExpiraTyping ''__proto__''"
    using pendientes_desmontar_proto[OF inv] by simp
  have b: "pendientes (paso Desmontar s) = []
      \<and> paso (Pasa dt) (paso Desmontar s) = (paso Desmontar s)\<lparr>ahora := ahora s + dt\<rparr>"
    if "\<forall>t\<in>set (pendientes s). t_accion t \<noteq> ExpiraTyping ''__proto__''"
  proof -
    have p: "pendientes (desmontar s) = []"
      using inv that by (rule pendientes_desmontar_vacio)
    show ?thesis
      using p by (simp add: avanzar_def correr_sin_pendientes)
  qed
  show ?thesis
    using a b by simp
qed


text \<open>The definitions unfolded to run the model on a concrete trace.\<close>

lemmas evaluar =
  ejecucion_def inicial_def con_sesion_def sin_sesion_def ana_def
  alRecibirTyping_def notifyTyping_def desmontar_def enviarMensaje_def useChat_enviarMensaje_def
  ChatUseCase_enviarMensaje_def setTyping_def publicar_def publicar_con_def limpiar_si_def
  setTimeout_def clearTimeout_def avanzar_def correr.simps proximo_def disparar_def
  trim_def es_espacio_def o_bien_def escribiendo_ids_def paradas_def Let_def
  leer_def escribir_def heredadas_def clearTimeout_valor_def

text \<open>
  Claim C4 as stated fails: with two senders typing, the cleanup leaves both in the list
  of typing users.
\<close>

theorem C4_contraejemplo:
  "escribiendo_ids (paso Desmontar
      (ejecucion [LlegaTyping ''ana'' None True, LlegaTyping ''luis'' None True] (inicial con_sesion)))
   = [''ana'', ''luis'']"
  by (simp add: evaluar)

theorem C4_witness:
  "length (pendientes (ejecucion [LlegaTyping ''ana'' None True, LlegaTyping ''luis'' None True, NotifyTyping]
      (inicial con_sesion))) = 3
   \<and> pendientes (paso Desmontar
        (ejecucion [LlegaTyping ''ana'' None True, LlegaTyping ''luis'' None True, NotifyTyping]
          (inicial con_sesion))) = []
   \<and> disparados (paso (Pasa 5000) (paso Desmontar
        (ejecucion [LlegaTyping ''ana'' None True, LlegaTyping ''luis'' None True, NotifyTyping]
          (inicial con_sesion)))) = []"
  using C4_desmontar [of "[LlegaTyping ''ana'' None True, LlegaTyping ''luis'' None True, NotifyTyping]"
      con_sesion 5000]
  by (simp add: evaluar)

text \<open>
  An expiry timer of the sender \<open>__proto__\<close> is not among the values of the table: it
  survives the cleanup and fires afterwards.
\<close>

lemma desmontar_no_limpia_proto:
  "pendientes (ejecucion [LlegaTyping ''__proto__'' None True, Desmontar] (inicial con_sesion))
     = [\<lparr>t_handle = 1, t_vence = 3000, t_accion = ExpiraTyping ''__proto__''\<rparr>]
   \<and> disparados (ejecucion [LlegaTyping ''__proto__'' None True, Desmontar, Pasa 3000] (inicial con_sesion))
     = [\<lparr>t_handle = 1, t_vence = 3000, t_accion = ExpiraTyping ''__proto__''\<rparr>]
   \<and> escribiendo_ids (ejecucion [LlegaTyping ''__proto__'' None True, Desmontar, Pasa 3000]
        (inicial con_sesion)) = []"
  by (simp add: evaluar)

section \<open>What the passing of time can change\<close>

lemma campos_disparar [simp]:
  "pendientes (disparar t s) = filter (\<lambda>u. t_handle u \<noteq> t_handle t) (pendientes s)"
  "siguiente (disparar t s) = siguiente s"
  "ahora (disparar t s) = max (ahora s) (t_vence t)"
  "disparados (disparar t s) = disparados s @ [t]"
  "entorno_actual (disparar t s) = entorno_actual s"
  "oyeTyping (disparar t s) = oyeTyping s"
  "mensajes (disparar t s) = mensajes s"
  by (simp_all add: disparar_def)

lemma typingUsers_disparar:
  "typingUsers (disparar t s) =
     (case t_accion t of
        ExpiraTyping u \<Rightarrow> filter (\<lambda>x. tu_usuario_id x \<noteq> u) (typingUsers s)
      | StopTyping \<Rightarrow> typingUsers s)"
  by (simp add: disparar_def typingUsers_ejecutar split: accion.splits)

lemma registro_disparar:
  "registro (disparar t s) =
     (case t_accion t of
        ExpiraTyping u \<Rightarrow> registro s
      | StopTyping \<Rightarrow>
          registro s @ map (Pair (max (ahora s) (t_vence t)))
            (snd (setTyping (e_getUser (entorno_actual s)) (typingChannel s) False)))"
  by (simp add: disparar_def registro_ejecutar split: accion.splits)

lemma ahora_correr: "ahora (correr limite s) = max (ahora s) limite"
proof -
  have "max (ahora (correr limite s)) limite = max (ahora s) limite \<and> limite \<le> ahora (correr limite s)"
  proof (induction limite s rule: correr.induct)
    case (1 limite s)
    show ?case
    proof (cases "proximo limite (pendientes s)")
      case None
      then show ?thesis by (simp add: correr.simps[of limite s])
    next
      case (Some t)
      then show ?thesis
        using "1.IH"[OF Some] proximo_Some(2)[OF Some] by (simp add: correr.simps[of limite s])
    qed
  qed
  then show ?thesis by (simp add: max_def split: if_splits)
qed

lemma campos_correr [simp]:
  "entorno_actual (correr limite s) = entorno_actual s"
  "oyeTyping (correr limite s) = oyeTyping s"
  "mensajes (correr limite s) = mensajes s"
  "siguiente (correr limite s) = siguiente s"
proof -
  have "entorno_actual (correr limite s) = entorno_actual s \<and> oyeTyping (correr limite s) = oyeTyping s
      \<and> mensajes (correr limite s) = mensajes s \<and> siguiente (correr limite s) = siguiente s"
    by (rule correr_preserva[where I="\<lambda>x. entorno_actual x = entorno_actual s \<and> oyeTyping x = oyeTyping s
          \<and> mensajes x = mensajes s \<and> siguiente x = siguiente s"]) simp_all
  then show "entorno_actual (correr limite s) = entorno_actual s"
    "oyeTyping (correr limite s) = oyeTyping s"
    "mensajes (correr limite s) = mensajes s"
    "siguiente (correr limite s) = siguiente s"
    by simp_all
qed

lemma pendientes_correr_subset: "set (pendientes (correr limite s)) \<subseteq> set (pendientes s)"
  by (rule correr_preserva[where I="\<lambda>x. set (pendientes x) \<subseteq> set (pendientes s)"]) auto

lemma typingUsers_correr_subset: "set (typingUsers (correr limite s)) \<subseteq> set (typingUsers s)"
  by (rule correr_preserva[where I="\<lambda>x. set (typingUsers x) \<subseteq> set (typingUsers s)"])
     (auto simp: typingUsers_disparar split: accion.splits)

lemma mismo_handle:
  assumes "invariante s" and "t \<in> set (pendientes s)" and "u \<in> set (pendientes s)"
      and "t_handle t = t_handle u"
  shows "t = u"
  using assms by (auto simp: invariante_def distinct_map inj_on_def)

text \<open>A handle that was handed out and is neither pending nor fired stays so.\<close>

lemma caducado_disparar:
  assumes "invariante s" and "proximo limite (pendientes s) = Some t"
      and "h < siguiente s" and "h \<notin> t_handle ` set (pendientes s)" and "h \<notin> t_handle ` set (disparados s)"
  shows "h < siguiente (disparar t s) \<and> h \<notin> t_handle ` set (pendientes (disparar t s))
       \<and> h \<notin> t_handle ` set (disparados (disparar t s))"
  using assms proximo_Some(1)[OF assms(2)] by auto

lemma caducado_correr:
  assumes "invariante s"
      and "h < siguiente s" and "h \<notin> t_handle ` set (pendientes s)" and "h \<notin> t_handle ` set (disparados s)"
  shows "h \<notin> t_handle ` set (pendientes (correr limite s)) \<and> h \<notin> t_handle ` set (disparados (correr limite s))"
proof -
  have "invariante (correr limite s) \<and> h < siguiente (correr limite s)
      \<and> h \<notin> t_handle ` set (pendientes (correr limite s))
      \<and> h \<notin> t_handle ` set (disparados (correr limite s))"
  proof (rule correr_preserva[where I="\<lambda>x. invariante x \<and> h < siguiente x
          \<and> h \<notin> t_handle ` set (pendientes x) \<and> h \<notin> t_handle ` set (disparados x)"])
    show "invariante s \<and> h < siguiente s \<and> h \<notin> t_handle ` set (pendientes s)
        \<and> h \<notin> t_handle ` set (disparados s)"
      using assms by simp
  next
    fix x t
    assume "invariante x \<and> h < siguiente x \<and> h \<notin> t_handle ` set (pendientes x)
        \<and> h \<notin> t_handle ` set (disparados x)" and "proximo limite (pendientes x) = Some t"
    then show "invariante (disparar t x) \<and> h < siguiente (disparar t x)
        \<and> h \<notin> t_handle ` set (pendientes (disparar t x))
        \<and> h \<notin> t_handle ` set (disparados (disparar t x))"
      using caducado_disparar[of x limite t h] invariante_disparar[of x limite t] by blast
  next
    fix x
    assume "invariante x \<and> h < siguiente x \<and> h \<notin> t_handle ` set (pendientes x)
        \<and> h \<notin> t_handle ` set (disparados x)" and "proximo limite (pendientes x) = None"
    then show "invariante (x\<lparr>ahora := max (ahora x) limite\<rparr>)
        \<and> h < siguiente (x\<lparr>ahora := max (ahora x) limite\<rparr>)
        \<and> h \<notin> t_handle ` set (pendientes (x\<lparr>ahora := max (ahora x) limite\<rparr>))
        \<and> h \<notin> t_handle ` set (disparados (x\<lparr>ahora := max (ahora x) limite\<rparr>))"
      using invariante_fin[of x limite] by simp
  qed
  then show ?thesis by simp
qed

lemma caducado_paso:
  assumes "invariante s"
      and "h < siguiente s" and "h \<notin> t_handle ` set (pendientes s)" and "h \<notin> t_handle ` set (disparados s)"
  shows "h < siguiente (paso ev s) \<and> h \<notin> t_handle ` set (pendientes (paso ev s))
       \<and> h \<notin> t_handle ` set (disparados (paso ev s))"
proof (cases ev)
  case (Pasa dt)
  then show ?thesis
    using caducado_correr[OF assms, of "ahora s + dt"] assms(2) by (simp add: avanzar_def)
next
  case (LlegaTyping u c b)
  then show ?thesis
    using assms by (auto simp: pendientes_alRecibirTyping)
next
  case NotifyTyping
  then show ?thesis
    using assms by (auto simp: pendientes_notifyTyping)
next
  case Desmontar
  then show ?thesis
    using assms by (auto simp: pendientes_desmontar)
qed (use assms in auto)

lemma caducado_ejecucion:
  assumes "invariante s"
      and "h < siguiente s" and "h \<notin> t_handle ` set (pendientes s)" and "h \<notin> t_handle ` set (disparados s)"
  shows "h \<notin> t_handle ` set (disparados (ejecucion evs s))"
  using assms unfolding ejecucion_def
proof (induction evs arbitrary: s)
  case Nil
  then show ?case by simp
next
  case (Cons ev evs)
  have "invariante (paso ev s)"
    using Cons.prems(1) by (rule invariante_paso)
  then show ?case
    using Cons.IH[of "paso ev s"] caducado_paso[OF Cons.prems, of ev] by simp
qed

text \<open>Only a typing event with \<open>escribiendo = true\<close> for a sender adds that sender.\<close>

lemma ausente_paso:
  assumes "S \<notin> set (escribiendo_ids s)" and "\<forall>c. ev \<noteq> LlegaTyping S c True"
  shows "S \<notin> set (escribiendo_ids (paso ev s))"
proof (cases ev)
  case (Pasa dt)
  then show ?thesis
    using assms(1) typingUsers_correr_subset[of "ahora s + dt" s]
    by (auto simp: escribiendo_ids_def avanzar_def)
next
  case (LlegaTyping u c b)
  then show ?thesis
    using assms by (auto simp: escribiendo_ids_def typingUsers_alRecibirTyping)
qed (use assms in \<open>auto simp: escribiendo_ids_def\<close>)

lemma ausente_ejecucion:
  assumes "S \<notin> set (escribiendo_ids s)" and "\<forall>c. LlegaTyping S c True \<notin> set evs"
  shows "S \<notin> set (escribiendo_ids (ejecucion evs s))"
  using assms unfolding ejecucion_def
proof (induction evs arbitrary: s)
  case Nil
  then show ?case by simp
next
  case (Cons ev evs)
  have "S \<notin> set (escribiendo_ids (paso ev s))"
    using Cons.prems by (intro ausente_paso) auto
  then show ?case
    using Cons.IH[of "paso ev s"] Cons.prems(2) by simp
qed

section \<open>A typing signal withdrawn\<close>

text \<open>
  For a sender other than \<open>__proto__\<close>, in every state the hook can reach while
  subscribed: a typing event with \<open>escribiendo = false\<close> removes the sender from the list
  at once and leaves no expiry timer of that sender pending. Whatever happens afterwards,
  the handle of an expiry timer cancelled this way never fires, and the sender stays
  absent until a typing event with \<open>escribiendo = true\<close> for that sender arrives.
\<close>

lemma retiro_de_un_remitente_ordinario:
  fixes evs despues :: "evento list" and e :: entorno and S :: string and c :: "string option"
  defines "s \<equiv> ejecucion evs (inicial e)"
  defines "s' \<equiv> paso (LlegaTyping S c False) (ejecucion evs (inicial e))"
  assumes oye: "oyeTyping s" and ordinario: "S \<noteq> ''__proto__''"
  shows "S \<notin> set (escribiendo_ids s')
       \<and> (\<forall>t\<in>set (pendientes s'). t_accion t \<noteq> ExpiraTyping S)
       \<and> (\<forall>t\<in>set (pendientes s). t_accion t = ExpiraTyping S \<longrightarrow>
             t_handle t \<notin> t_handle ` set (disparados (ejecucion despues s')))
       \<and> ((\<forall>c'. LlegaTyping S c' True \<notin> set despues) \<longrightarrow>
             S \<notin> set (escribiendo_ids (ejecucion despues s')))"
proof -
  have inv: "invariante s"
    unfolding s_def by (rule invariante_alcanzable)
  have s': "s' = alRecibirTyping S c False s"
    using oye by (simp add: s'_def s_def)
  have inv': "invariante s'"
    unfolding s' using inv by (rule invariante_alRecibirTyping)
  have a: "S \<notin> set (escribiendo_ids s')"
    by (auto simp: s' escribiendo_ids_def typingUsers_alRecibirTyping)
  have b: "t_accion t \<noteq> ExpiraTyping S" if t: "t \<in> set (pendientes s')" for t
  proof
    assume ex: "t_accion t = ExpiraTyping S"
    have t0: "t \<in> set (pendientes s)"
      and no: "\<not> (map_of (typingTimers s) S = Some (t_handle t) \<and> t_handle t \<noteq> 0)"
      using t by (simp_all add: s' pendientes_alRecibirTyping)
    show False
      using invarianteD(1,4)[OF inv t0] ex no ordinario by (simp add: temporizador_registrado_def)
  qed
  have c: "t_handle t \<notin> t_handle ` set (disparados (ejecucion despues s'))"
    if t: "t \<in> set (pendientes s)" and ex: "t_accion t = ExpiraTyping S" for t
  proof (rule caducado_ejecucion[OF inv'])
    show "t_handle t < siguiente s'"
      using invarianteD(2)[OF inv t] by (simp add: s')
    have reg: "map_of (typingTimers s) S = Some (t_handle t)" "t_handle t \<noteq> 0"
      using invarianteD(1,4)[OF inv t] ex ordinario by (simp_all add: temporizador_registrado_def)
    show "t_handle t \<notin> t_handle ` set (pendientes s')"
      using reg by (auto simp: s' pendientes_alRecibirTyping)
    have "t_handle x \<noteq> t_handle t" if "x \<in> set (disparados s)" for x
      using invariante_disparadosD(2)[OF inv that] t by force
    then show "t_handle t \<notin> t_handle ` set (disparados s')"
      by (fastforce simp: s')
  qed
  show ?thesis
    using a b c ausente_ejecucion[OF a, of despues] by blast
qed


text \<open>
  Claim C3 fails in the code for the sender \<open>__proto__\<close>. The typing event at 0 sets timer
  1, which the table never holds. The event with \<open>escribiendo = false\<close> at 1000 removes the
  sender but reads \<open>Object.prototype\<close> from the table, so timer 1 stays pending. The
  sender is listed again at 2000, and at 3000 the stale timer 1 fires and removes it,
  2000 ms before the timer set at 2000 is due.
\<close>

theorem C3_proto_temporizador_no_cancelado:
  "escribiendo_ids (ejecucion
      [LlegaTyping ''__proto__'' None True, Pasa 1000, LlegaTyping ''__proto__'' None False]
      (inicial con_sesion)) = []
   \<and> pendientes (ejecucion
      [LlegaTyping ''__proto__'' None True, Pasa 1000, LlegaTyping ''__proto__'' None False]
      (inicial con_sesion))
     = [\<lparr>t_handle = 1, t_vence = 3000, t_accion = ExpiraTyping ''__proto__''\<rparr>]
   \<and> escribiendo_ids (ejecucion
      [LlegaTyping ''__proto__'' None True, Pasa 1000, LlegaTyping ''__proto__'' None False,
       Pasa 1000, LlegaTyping ''__proto__'' None True]
      (inicial con_sesion)) = [''__proto__'']
   \<and> escribiendo_ids (ejecucion
      [LlegaTyping ''__proto__'' None True, Pasa 1000, LlegaTyping ''__proto__'' None False,
       Pasa 1000, LlegaTyping ''__proto__'' None True, Pasa 1000]
      (inicial con_sesion)) = []
   \<and> disparados (ejecucion
      [LlegaTyping ''__proto__'' None True, Pasa 1000, LlegaTyping ''__proto__'' None False,
       Pasa 1000, LlegaTyping ''__proto__'' None True, Pasa 1000]
      (inicial con_sesion))
     = [\<lparr>t_handle = 1, t_vence = 3000, t_accion = ExpiraTyping ''__proto__''\<rparr>]"
  by (simp add: evaluar)

section \<open>A refreshed typing signal\<close>

lemma filtro_unico:
  "distinct (map f xs) \<Longrightarrow> S \<in> f ` set xs \<Longrightarrow> length (filter (\<lambda>u. f u = S) xs) = 1"
proof (induction xs)
  case Nil
  then show ?case by simp
next
  case (Cons a xs)
  show ?case
  proof (cases "f a = S")
    case True
    then have "S \<notin> f ` set xs"
      using Cons.prems(1) by auto
    then have "filter (\<lambda>u. f u = S) xs = []"
      by (auto simp: filter_empty_conv)
    then show ?thesis using True by simp
  next
    case False
    then show ?thesis
      using Cons by auto
  qed
qed

lemma entradas_de_distinct:
  assumes "invariante s" and "S \<in> set (escribiendo_ids s)"
  shows "length (entradas_de S s) = 1"
  using assms filtro_unico[of tu_usuario_id "typingUsers s" S]
  by (simp add: invariante_def escribiendo_ids_def entradas_de_def)

lemma refresco:
  fixes S :: string and c :: "string option"
  assumes inv: "invariante s" and ordinario: "S \<noteq> ''__proto__''"
  defines "s1 \<equiv> alRecibirTyping S c True s"
  shows "expira_de S (pendientes s1)
           = [\<lparr>t_handle = siguiente s, t_vence = ahora s + 3000, t_accion = ExpiraTyping S\<rparr>]"
    and "S \<in> set (escribiendo_ids s1)"
    and "S \<in> set (escribiendo_ids s) \<Longrightarrow> typingUsers s1 = typingUsers s"
proof -
  have "map_of (typingTimers s) S = Some (t_handle t) \<and> t_handle t \<noteq> 0"
    if "t \<in> set (pendientes s)" "t_accion t = ExpiraTyping S" for t
    using invarianteD(1,4)[OF inv that(1)] that(2) ordinario
    by (simp add: temporizador_registrado_def)
  then have "filter (\<lambda>t. t_accion t = ExpiraTyping S)
      (filter (\<lambda>t. \<not> (map_of (typingTimers s) S = Some (t_handle t) \<and> t_handle t \<noteq> 0)) (pendientes s)) = []"
    by (auto simp: filter_empty_conv)
  then show "expira_de S (pendientes s1)
           = [\<lparr>t_handle = siguiente s, t_vence = ahora s + 3000, t_accion = ExpiraTyping S\<rparr>]"
    by (simp add: s1_def expira_de_def pendientes_alRecibirTyping)
  show "S \<in> set (escribiendo_ids s1)"
    by (auto simp: s1_def escribiendo_ids_def typingUsers_alRecibirTyping)
  show "S \<in> set (escribiendo_ids s) \<Longrightarrow> typingUsers s1 = typingUsers s"
    by (simp add: s1_def escribiendo_ids_def typingUsers_alRecibirTyping)
qed

lemma correr_antes_de_expirar:
  assumes "invariante s" and "expira_de S (pendientes s) = [t0]" and "limite < t_vence t0"
  shows "expira_de S (pendientes (correr limite s)) = [t0]
       \<and> entradas_de S (correr limite s) = entradas_de S s"
proof -
  let ?I = "\<lambda>x. invariante x \<and> expira_de S (pendientes x) = [t0] \<and> entradas_de S x = entradas_de S s"
  have "?I (correr limite s)"
  proof (rule correr_preserva[where I="?I"])
    show "?I s" using assms by simp
  next
    fix x t
    assume I: "?I x" and p: "proximo limite (pendientes x) = Some t"
    note pr = proximo_Some[OF p]
    have "t0 \<in> set (expira_de S (pendientes x))"
      using I by simp
    then have t0_in: "t0 \<in> set (pendientes x)" and t0_ac: "t_accion t0 = ExpiraTyping S"
      by (simp_all add: expira_de_def)
    have ne: "t \<noteq> t0"
      using pr(2) assms(3) by auto
    have hne: "t_handle t0 \<noteq> t_handle t"
      using mismo_handle[of x t t0] I pr(1) t0_in ne by auto
    have nS: "t_accion t \<noteq> ExpiraTyping S"
    proof
      assume "t_accion t = ExpiraTyping S"
      then have "t \<in> set (expira_de S (pendientes x))"
        using pr(1) by (simp add: expira_de_def)
      then show False using I ne by simp
    qed
    have "expira_de S (pendientes (disparar t x)) = filter (\<lambda>u. t_handle u \<noteq> t_handle t) (expira_de S (pendientes x))"
      by (simp add: expira_de_def conj_commute)
    then have a: "expira_de S (pendientes (disparar t x)) = [t0]"
      using I hne by simp
    have b: "entradas_de S (disparar t x) = entradas_de S x"
      using nS by (auto simp: entradas_de_def typingUsers_disparar split: accion.splits intro: filter_cong)
    show "?I (disparar t x)"
      using a b I invariante_disparar[OF _ p] by simp
  next
    fix x
    assume "?I x" and "proximo limite (pendientes x) = None"
    then show "?I (x\<lparr>ahora := max (ahora x) limite\<rparr>)"
      using invariante_fin[of x limite] by (simp add: entradas_de_def)
  qed
  then show ?thesis by simp
qed

lemma correr_expira:
  assumes "invariante s" and "t0 \<in> set (pendientes s)" and "t_accion t0 = ExpiraTyping S"
      and "t_vence t0 \<le> limite"
  shows "S \<notin> set (escribiendo_ids (correr limite s))"
  using assms
proof (induction limite s rule: correr.induct)
  case (1 limite s)
  show ?case
  proof (cases "proximo limite (pendientes s)")
    case None
    then show ?thesis
      using proximo_None[OF None "1.prems"(2)] "1.prems"(4) by simp
  next
    case (Some t)
    note pr = proximo_Some[OF Some]
    have inv': "invariante (disparar t s)"
      using "1.prems"(1) Some by (rule invariante_disparar)
    show ?thesis
    proof (cases "t_handle t = t_handle t0")
      case True
      then have "t = t0"
        using mismo_handle[OF "1.prems"(1) pr(1) "1.prems"(2)] by simp
      then have "S \<notin> tu_usuario_id ` set (typingUsers (disparar t s))"
        using "1.prems"(3) by (auto simp: typingUsers_disparar)
      then have "S \<notin> tu_usuario_id ` set (typingUsers (correr limite (disparar t s)))"
        using typingUsers_correr_subset[of limite "disparar t s"] by blast
      then show ?thesis
        using Some by (simp add: correr.simps[of limite s] escribiendo_ids_def)
    next
      case False
      then have "t0 \<in> set (pendientes (disparar t s))"
        using "1.prems"(2) by simp
      then have "S \<notin> set (escribiendo_ids (correr limite (disparar t s)))"
        using "1.IH"[OF Some inv' _ "1.prems"(3,4)] by simp
      then show ?thesis
        using Some by (simp add: correr.simps[of limite s])
    qed
  qed
qed


lemma entradas_de_vacio: "entradas_de S s = [] \<longleftrightarrow> S \<notin> set (escribiendo_ids s)"
  by (auto simp: entradas_de_def escribiendo_ids_def filter_empty_conv)

lemma cadena_refrescos:
  assumes "invariante s" and "oyeTyping s" and "S \<in> set (escribiendo_ids s)"
      and "\<forall>d\<in>set ds. d < 3000" and "S \<noteq> ''__proto__''"
  shows "invariante (ejecucion (refrescos S c ds) s) \<and> oyeTyping (ejecucion (refrescos S c ds) s)
       \<and> entradas_de S (ejecucion (refrescos S c ds) s) = entradas_de S s
       \<and> expira_de S (pendientes (ejecucion (refrescos S c ds) s))
           = [\<lparr>t_handle = siguiente (ejecucion (refrescos S c ds) s) - 1,
               t_vence = ahora (ejecucion (refrescos S c ds) s) + 3000,
               t_accion = ExpiraTyping S\<rparr>]"
  using assms
proof (induction ds arbitrary: s)
  case Nil
  let ?s1 = "alRecibirTyping S c True s"
  have e: "ejecucion (refrescos S c []) s = ?s1"
    using Nil.prems(2) by (simp add: ejecucion_def refrescos_def)
  note r = refresco[where S = S and c = c, OF Nil.prems(1) Nil.prems(5)]
  show ?case
    unfolding e using r(1) r(3)[OF Nil.prems(3)] Nil.prems(1,2)
    by (simp add: invariante_alRecibirTyping entradas_de_def)
next
  case (Cons d ds)
  let ?s1 = "alRecibirTyping S c True s"
  let ?s2 = "avanzar d ?s1"
  note r = refresco[where S = S and c = c, OF Cons.prems(1) Cons.prems(5)]
  have inv1: "invariante ?s1"
    using Cons.prems(1) by (rule invariante_alRecibirTyping)
  have d: "d < 3000" using Cons.prems(4) by simp
  have q: "expira_de S (pendientes ?s2) = [\<lparr>t_handle = siguiente s, t_vence = ahora s + 3000, t_accion = ExpiraTyping S\<rparr>]
       \<and> entradas_de S ?s2 = entradas_de S ?s1"
    unfolding avanzar_def using inv1 r(1) d
    by (intro correr_antes_de_expirar) simp_all
  have ent: "entradas_de S ?s2 = entradas_de S s"
    using q r(3)[OF Cons.prems(3)] by (simp add: entradas_de_def)
  have inv2: "invariante ?s2"
    using inv1 by (rule invariante_avanzar)
  have oye2: "oyeTyping ?s2"
    using Cons.prems(2) by (simp add: avanzar_def)
  have pres2: "S \<in> set (escribiendo_ids ?s2)"
    using ent Cons.prems(3) entradas_de_vacio[of S ?s2] entradas_de_vacio[of S s] by simp
  have e: "ejecucion (refrescos S c (d # ds)) s = ejecucion (refrescos S c ds) ?s2"
    using Cons.prems(2) oye2 by (simp add: ejecucion_def refrescos_def)
  show ?case
    unfolding e using Cons.IH[OF inv2 oye2 pres2] Cons.prems(4,5) ent by simp
qed

text \<open>
  For a sender other than \<open>__proto__\<close>, in every state the hook can reach while
  subscribed, with the sender already listed: a further typing event with \<open>escribiendo = true\<close> leaves the list as it is;
  after that event and any number of refreshes, each less than 3000 ms after the one
  before, the sender still has the one entry it had, and its only pending expiry timer is
  the one set by the last refresh, due 3000 ms after it. From there the sender is still
  listed once less than 3000 ms have passed, and gone once 3000 ms have.
\<close>

lemma refresco_de_un_remitente_ordinario:
  fixes evs :: "evento list" and e :: entorno and S :: string and c :: "string option"
    and ds :: "nat list" and dt :: nat
  defines "s \<equiv> ejecucion evs (inicial e)"
  defines "s' \<equiv> ejecucion (refrescos S c ds) (ejecucion evs (inicial e))"
  assumes oye: "oyeTyping s" and pres: "S \<in> set (escribiendo_ids s)"
      and gaps: "\<forall>d\<in>set ds. d < 3000" and ordinario: "S \<noteq> ''__proto__''"
  shows "typingUsers (paso (LlegaTyping S c True) s) = typingUsers s
       \<and> entradas_de S s' = entradas_de S s \<and> length (entradas_de S s') = 1
       \<and> expira_de S (pendientes s')
           = [\<lparr>t_handle = siguiente s' - 1, t_vence = ahora s' + 3000, t_accion = ExpiraTyping S\<rparr>]
       \<and> (dt < 3000 \<longrightarrow> S \<in> set (escribiendo_ids (paso (Pasa dt) s')))
       \<and> (3000 \<le> dt \<longrightarrow> S \<notin> set (escribiendo_ids (paso (Pasa dt) s')))"
proof -
  have inv: "invariante s"
    unfolding s_def by (rule invariante_alcanzable)
  have s'_eq: "s' = ejecucion (refrescos S c ds) s"
    by (simp add: s'_def s_def)
  note k = cadena_refrescos[OF inv oye pres gaps ordinario, of c, folded s'_eq]
  let ?t0 = "\<lparr>t_handle = siguiente s' - 1, t_vence = ahora s' + 3000, t_accion = ExpiraTyping S\<rparr>"
  have inv': "invariante s'" and ent: "entradas_de S s' = entradas_de S s"
    and ex: "expira_de S (pendientes s') = [?t0]"
    using k by simp_all
  have one: "length (entradas_de S s) = 1"
    using inv pres by (rule entradas_de_distinct)
  have a: "typingUsers (paso (LlegaTyping S c True) s) = typingUsers s"
    using oye refresco(3)[where c = c, OF inv ordinario pres] by simp
  have b: "S \<in> set (escribiendo_ids (paso (Pasa dt) s'))" if "dt < 3000"
  proof -
    have "entradas_de S (correr (ahora s' + dt) s') = entradas_de S s'"
      using correr_antes_de_expirar[OF inv' ex, of "ahora s' + dt"] that by simp
    then have "entradas_de S (paso (Pasa dt) s') \<noteq> []"
      using ent one by (auto simp: avanzar_def)
    then show ?thesis
      by (simp add: entradas_de_vacio)
  qed
  have c: "S \<notin> set (escribiendo_ids (paso (Pasa dt) s'))" if "3000 \<le> dt"
  proof -
    have "?t0 \<in> set (expira_de S (pendientes s'))"
      using ex by simp
    then have "?t0 \<in> set (pendientes s')"
      by (simp add: expira_de_def)
    then show ?thesis
      using correr_expira[OF inv', of ?t0 S "ahora s' + dt"] that by (simp add: avanzar_def)
  qed
  show ?thesis
    using a b c ent one ex by simp
qed

lemma refresco_ejemplo:
  "oyeTyping (ejecucion [LlegaTyping ''ana'' None True, Pasa 1000] (inicial con_sesion))
   \<and> escribiendo_ids (ejecucion [LlegaTyping ''ana'' None True, Pasa 1000] (inicial con_sesion)) = [''ana'']
   \<and> escribiendo_ids (ejecucion (refrescos ''ana'' None [2000])
        (ejecucion [LlegaTyping ''ana'' None True, Pasa 1000] (inicial con_sesion))) = [''ana'']
   \<and> escribiendo_ids (paso (Pasa 2000) (ejecucion (refrescos ''ana'' None [2000])
        (ejecucion [LlegaTyping ''ana'' None True, Pasa 1000] (inicial con_sesion)))) = [''ana'']
   \<and> ahora (paso (Pasa 2000) (ejecucion (refrescos ''ana'' None [2000])
        (ejecucion [LlegaTyping ''ana'' None True, Pasa 1000] (inicial con_sesion)))) = 5000
   \<and> escribiendo_ids (paso (Pasa 3000) (ejecucion (refrescos ''ana'' None [2000])
        (ejecucion [LlegaTyping ''ana'' None True, Pasa 1000] (inicial con_sesion)))) = []"
  using refresco_de_un_remitente_ordinario [where evs = "[LlegaTyping ''ana'' None True, Pasa 1000]" and e = con_sesion
      and S = "''ana''" and c = None and ds = "[2000]" and dt = 2000]
  by (simp add: evaluar refrescos_def)


text \<open>
  Claim C2 fails in the code for the sender \<open>__proto__\<close>. The typing event at 0 sets timer
  1, which the table never holds. The refresh at 2000 reads \<open>Object.prototype\<close> from the
  table, clears nothing and sets timer 2, so both timers are pending. Timer 1 fires at
  3000 and removes the sender, 1000 ms after the refresh: 2000 ms after the refresh,
  at 4000, the sender is not listed.
\<close>

theorem C2_proto_refresco_no_reinicia:
  "escribiendo_ids (ejecucion
      [LlegaTyping ''__proto__'' None True, Pasa 2000, LlegaTyping ''__proto__'' None True]
      (inicial con_sesion)) = [''__proto__'']
   \<and> pendientes (ejecucion
      [LlegaTyping ''__proto__'' None True, Pasa 2000, LlegaTyping ''__proto__'' None True]
      (inicial con_sesion))
     = [\<lparr>t_handle = 1, t_vence = 3000, t_accion = ExpiraTyping ''__proto__''\<rparr>,
        \<lparr>t_handle = 2, t_vence = 5000, t_accion = ExpiraTyping ''__proto__''\<rparr>]
   \<and> escribiendo_ids (ejecucion
      [LlegaTyping ''__proto__'' None True, Pasa 2000, LlegaTyping ''__proto__'' None True, Pasa 1000]
      (inicial con_sesion)) = []
   \<and> escribiendo_ids (ejecucion
      [LlegaTyping ''__proto__'' None True, Pasa 2000, LlegaTyping ''__proto__'' None True, Pasa 2000]
      (inicial con_sesion)) = []
   \<and> ahora (ejecucion
      [LlegaTyping ''__proto__'' None True, Pasa 2000, LlegaTyping ''__proto__'' None True, Pasa 2000]
      (inicial con_sesion)) = 4000"
  by (simp add: evaluar)

section \<open>The debounced stop signal\<close>

lemma paradas_append: "paradas (xs @ ys) = paradas xs @ paradas ys"
  by (simp add: paradas_def difusiones_append)

lemma paradas_setTyping:
  "paradas (map (Pair t) (snd (setTyping r canal b))) =
     (case r of Responde (Some user) \<Rightarrow> if b then [] else [(t, senal user False)] | _ \<Rightarrow> [])"
  by (simp add: paradas_def difusiones_setTyping senal_def split: respuesta.splits option.splits)

lemma paradas_ChatUseCase_enviarMensaje:
  "paradas (map (Pair t) (snd (ChatUseCase_enviarMensaje r ri c))) = []"
  by (simp add: paradas_def difusiones_ChatUseCase_enviarMensaje)

lemma typingChannel_disparar:
  "t_accion t \<noteq> StopTyping \<Longrightarrow> typingChannel (disparar t s) = typingChannel s"
  by (cases "t_accion t") (simp_all add: disparar_def)

lemma stop_registrado:
  assumes "invariante s" and "t \<in> set (pendientes s)" and "u \<in> set (pendientes s)"
      and "t_accion t = StopTyping" and "t_accion u = StopTyping"
  shows "t = u"
proof -
  have "typingTimeoutRef s = Some (t_handle t)" "typingTimeoutRef s = Some (t_handle u)"
    using invarianteD(4)[OF assms(1,2)] invarianteD(4)[OF assms(1,3)] assms(4,5)
    by (simp_all add: temporizador_registrado_def)
  then have "t_handle t = t_handle u" by simp
  then show ?thesis
    using assms(1,2,3) by (rule mismo_handle[rotated 3])
qed

lemma correr_sin_stop:
  assumes "invariante s" and "\<forall>t\<in>set (stop_de (pendientes s)). limite < t_vence t"
  shows "stop_de (pendientes (correr limite s)) = stop_de (pendientes s)
       \<and> stop_de (disparados (correr limite s)) = stop_de (disparados s)
       \<and> registro (correr limite s) = registro s"
proof -
  let ?I = "\<lambda>x. invariante x \<and> stop_de (pendientes x) = stop_de (pendientes s)
      \<and> stop_de (disparados x) = stop_de (disparados s) \<and> registro x = registro s"
  have "?I (correr limite s)"
  proof (rule correr_preserva[where I="?I"])
    show "?I s" using assms by simp
  next
    fix x t
    assume I: "?I x" and p: "proximo limite (pendientes x) = Some t"
    note pr = proximo_Some[OF p]
    have nS: "t_accion t \<noteq> StopTyping"
    proof
      assume "t_accion t = StopTyping"
      then have "t \<in> set (stop_de (pendientes x))"
        using pr(1) by (simp add: stop_de_def)
      then have "t \<in> set (stop_de (pendientes s))"
        using I by simp
      then show False using assms(2) pr(2) by auto
    qed
    have "t_handle u \<noteq> t_handle t" if "u \<in> set (pendientes x)" "t_accion u = StopTyping" for u
      using mismo_handle[of x u t] I pr(1) that nS by auto
    then have a: "stop_de (pendientes (disparar t x)) = stop_de (pendientes x)"
      by (auto simp: stop_de_def intro: filter_cong)
    have b: "stop_de (disparados (disparar t x)) = stop_de (disparados x)"
      using nS by (simp add: stop_de_def)
    have c: "registro (disparar t x) = registro x"
      using nS by (simp add: registro_disparar split: accion.splits)
    show "?I (disparar t x)"
      using a b c I invariante_disparar[OF _ p] by simp
  next
    fix x
    assume "?I x" and "proximo limite (pendientes x) = None"
    then show "?I (x\<lparr>ahora := max (ahora x) limite\<rparr>)"
      using invariante_fin[of x limite] by simp
  qed
  then show ?thesis by simp
qed


lemma correr_stop:
  assumes "invariante s" and "t0 \<in> set (pendientes s)" and "t_accion t0 = StopTyping"
      and "t_vence t0 \<le> limite"
  shows "registro (correr limite s) =
           registro s @ map (Pair (t_vence t0))
             (snd (setTyping (e_getUser (entorno_actual s)) (typingChannel s) False))
       \<and> stop_de (disparados (correr limite s)) = stop_de (disparados s) @ [t0]
       \<and> stop_de (pendientes (correr limite s)) = []"
  using assms
proof (induction limite s rule: correr.induct)
  case (1 limite s)
  show ?case
  proof (cases "proximo limite (pendientes s)")
    case None
    then show ?thesis
      using proximo_None[OF None "1.prems"(2)] "1.prems"(4) by simp
  next
    case (Some t)
    note pr = proximo_Some[OF Some]
    have inv': "invariante (disparar t s)"
      using "1.prems"(1) Some by (rule invariante_disparar)
    have c: "correr limite s = correr limite (disparar t s)"
      using Some by (simp add: correr.simps[of limite s])
    show ?thesis
    proof (cases "t_accion t")
      case StopTyping
      then have tt: "t = t0"
        using stop_registrado[OF "1.prems"(1) pr(1) "1.prems"(2)] "1.prems"(3) by simp
      have "u \<notin> set (pendientes (disparar t s))" if "t_accion u = StopTyping" for u
      proof
        assume "u \<in> set (pendientes (disparar t s))"
        then have "u \<in> set (pendientes s)" "t_handle u \<noteq> t_handle t"
          by simp_all
        then show False
          using stop_registrado[OF "1.prems"(1) _ pr(1) that StopTyping] by auto
      qed
      then have vac: "stop_de (pendientes (disparar t s)) = []"
        by (auto simp: stop_de_def filter_empty_conv)
      then have q: "stop_de (pendientes (correr limite (disparar t s))) = stop_de (pendientes (disparar t s))
         \<and> stop_de (disparados (correr limite (disparar t s))) = stop_de (disparados (disparar t s))
         \<and> registro (correr limite (disparar t s)) = registro (disparar t s)"
        using inv' by (intro correr_sin_stop) simp_all
      have "ahora s \<le> t_vence t0"
        using invarianteD(3)[OF "1.prems"(1,2)] .
      then have "registro (disparar t s) = registro s @ map (Pair (t_vence t0))
             (snd (setTyping (e_getUser (entorno_actual s)) (typingChannel s) False))"
        using StopTyping tt by (simp add: registro_disparar max_def)
      moreover have "stop_de (disparados (disparar t s)) = stop_de (disparados s) @ [t0]"
        using tt "1.prems"(3) by (simp add: stop_de_def)
      ultimately show ?thesis
        unfolding c using q vac by simp
    next
      case (ExpiraTyping u)
      then have ne: "t_handle t0 \<noteq> t_handle t"
        using mismo_handle[OF "1.prems"(1) "1.prems"(2) pr(1)] "1.prems"(3) by auto
      then have "t0 \<in> set (pendientes (disparar t s))"
        using "1.prems"(2) by simp
      then have "registro (correr limite (disparar t s)) =
           registro (disparar t s) @ map (Pair (t_vence t0))
             (snd (setTyping (e_getUser (entorno_actual (disparar t s))) (typingChannel (disparar t s)) False))
         \<and> stop_de (disparados (correr limite (disparar t s))) = stop_de (disparados (disparar t s)) @ [t0]
         \<and> stop_de (pendientes (correr limite (disparar t s))) = []"
        using "1.IH"[OF Some inv' _ "1.prems"(3,4)] by simp
      then show ?thesis
        unfolding c using ExpiraTyping
        by (simp add: registro_disparar typingChannel_disparar stop_de_def)
    qed
  qed
qed

lemma stop_de_notifyTyping:
  assumes "invariante s"
  shows "stop_de (pendientes (notifyTyping s))
           = [\<lparr>t_handle = siguiente s, t_vence = ahora s + 1500, t_accion = StopTyping\<rparr>]"
proof -
  have "typingTimeoutRef s = Some (t_handle t) \<and> t_handle t \<noteq> 0"
    if "t \<in> set (pendientes s)" "t_accion t = StopTyping" for t
    using invarianteD(1,4)[OF assms that(1)] that(2) by (simp add: temporizador_registrado_def)
  then have "filter (\<lambda>t. t_accion t = StopTyping)
      (filter (\<lambda>t. \<not> (typingTimeoutRef s = Some (t_handle t) \<and> t_handle t \<noteq> 0)) (pendientes s)) = []"
    by (auto simp: filter_empty_conv)
  then show ?thesis
    by (simp add: stop_de_def pendientes_notifyTyping)
qed

lemma paradas_publicar_True: "paradas (registro (publicar True s)) = paradas (registro s)"
  by (simp add: registro_publicar paradas_append paradas_setTyping split: respuesta.splits option.splits)

lemma cadena_rafaga:
  assumes "invariante s" and "\<forall>d\<in>set ds. d < 1500"
  shows "invariante (ejecucion (rafaga ds) s)
       \<and> stop_de (pendientes (ejecucion (rafaga ds) s))
           = [\<lparr>t_handle = siguiente (ejecucion (rafaga ds) s) - 1,
               t_vence = ahora (ejecucion (rafaga ds) s) + 1500,
               t_accion = StopTyping\<rparr>]
       \<and> paradas (registro (ejecucion (rafaga ds) s)) = paradas (registro s)
       \<and> stop_de (disparados (ejecucion (rafaga ds) s)) = stop_de (disparados s)
       \<and> ahora (ejecucion (rafaga ds) s) = ahora s + sum_list ds
       \<and> entorno_actual (ejecucion (rafaga ds) s) = entorno_actual s"
  using assms
proof (induction ds arbitrary: s)
  case Nil
  have e: "ejecucion (rafaga []) s = notifyTyping s"
    by (simp add: ejecucion_def rafaga_def)
  show ?case
    unfolding e using Nil.prems(1)
    by (simp add: invariante_notifyTyping stop_de_notifyTyping paradas_publicar_True)
next
  case (Cons d ds)
  let ?s1 = "notifyTyping s"
  let ?s2 = "avanzar d ?s1"
  have inv1: "invariante ?s1"
    using Cons.prems(1) by (rule invariante_notifyTyping)
  have d: "d < 1500" using Cons.prems(2) by simp
  have q: "stop_de (pendientes ?s2) = stop_de (pendientes ?s1)
       \<and> stop_de (disparados ?s2) = stop_de (disparados ?s1)
       \<and> registro ?s2 = registro ?s1"
    unfolding avanzar_def using inv1 d
    by (intro correr_sin_stop) (simp_all add: stop_de_notifyTyping[OF Cons.prems(1)])
  have inv2: "invariante ?s2"
    using inv1 by (rule invariante_avanzar)
  have e: "ejecucion (rafaga (d # ds)) s = ejecucion (rafaga ds) ?s2"
    by (simp add: ejecucion_def rafaga_def)
  have t2: "ahora ?s2 = ahora s + d"
    by (simp add: avanzar_def ahora_correr)
  have env2: "entorno_actual ?s2 = entorno_actual s"
    by (simp add: avanzar_def)
  show ?case
    unfolding e using Cons.IH[OF inv2] Cons.prems(2) q t2 env2
    by (simp add: paradas_publicar_True)
qed


text \<open>
  Claim C5, amended. In every state the hook can reach: during a burst of
  \<^verbatim>\<open>notifyTyping()\<close> calls, each less than 1500 ms after the one before, no stop signal is
  published; once 1500 ms or more have passed after the last call, exactly one debounce
  timer has fired, the one set by the last call and due 1500 ms after it, and it has
  called \<^verbatim>\<open>setTyping(false)\<close> once: one stop signal, stamped 1500 ms after the last call,
  has been published when the identity lookup resolves to a user, and none otherwise.
\<close>

theorem C5_rafaga:
  fixes evs :: "evento list" and e :: entorno and ds :: "nat list" and dt :: nat
  defines "s \<equiv> ejecucion evs (inicial e)"
  assumes gaps: "\<forall>d\<in>set ds. d < 1500" and espera: "1500 \<le> dt"
  shows "paradas (registro (ejecucion (rafaga ds) s)) = paradas (registro s)
       \<and> stop_de (disparados (ejecucion (rafaga ds) s)) = stop_de (disparados s)
       \<and> ahora (ejecucion (rafaga ds) s) = ahora s + sum_list ds
       \<and> stop_de (disparados (ejecucion (rafaga ds @ [Pasa dt]) s))
           = stop_de (disparados s) @
             [\<lparr>t_handle = siguiente (ejecucion (rafaga ds) s) - 1,
               t_vence = ahora s + sum_list ds + 1500, t_accion = StopTyping\<rparr>]
       \<and> paradas (registro (ejecucion (rafaga ds @ [Pasa dt]) s))
           = paradas (registro s) @
             (case e_getUser (entorno_actual s) of
                Responde (Some user) \<Rightarrow> [(ahora s + sum_list ds + 1500, senal user False)]
              | _ \<Rightarrow> [])"
proof -
  have inv: "invariante s"
    unfolding s_def by (rule invariante_alcanzable)
  let ?s1 = "ejecucion (rafaga ds) s"
  let ?t0 = "\<lparr>t_handle = siguiente ?s1 - 1, t_vence = ahora ?s1 + 1500, t_accion = StopTyping\<rparr>"
  note k = cadena_rafaga[OF inv gaps]
  have inv1: "invariante ?s1" and st: "stop_de (pendientes ?s1) = [?t0]"
    and par: "paradas (registro ?s1) = paradas (registro s)"
    and dis: "stop_de (disparados ?s1) = stop_de (disparados s)"
    and t1: "ahora ?s1 = ahora s + sum_list ds"
    and env: "entorno_actual ?s1 = entorno_actual s"
    using k by simp_all
  have "?t0 \<in> set (stop_de (pendientes ?s1))"
    using st by simp
  then have t0: "?t0 \<in> set (pendientes ?s1)"
    by (simp add: stop_de_def)
  have e: "ejecucion (rafaga ds @ [Pasa dt]) s = correr (ahora ?s1 + dt) ?s1"
    by (simp add: ejecucion_def avanzar_def)
  note f = correr_stop[OF inv1 t0, of "ahora ?s1 + dt"]
  have r: "registro (correr (ahora ?s1 + dt) ?s1) =
           registro ?s1 @ map (Pair (ahora ?s1 + 1500))
             (snd (setTyping (e_getUser (entorno_actual ?s1)) (typingChannel ?s1) False))"
    and g: "stop_de (disparados (correr (ahora ?s1 + dt) ?s1)) = stop_de (disparados ?s1) @ [?t0]"
    using f espera by simp_all
  have "paradas (registro (correr (ahora ?s1 + dt) ?s1))
      = paradas (registro s) @
             (case e_getUser (entorno_actual s) of
                Responde (Some user) \<Rightarrow> [(ahora s + sum_list ds + 1500, senal user False)]
              | _ \<Rightarrow> [])"
    unfolding r using par env t1
    by (simp add: paradas_append paradas_setTyping split: respuesta.splits option.splits)
  then show ?thesis
    unfolding e using par t1 g dis by simp
qed

theorem C5_witness:
  "paradas (registro (ejecucion (rafaga [500, 500])
        (ejecucion [LlegaTyping ''luis'' None True, Pasa 100] (inicial con_sesion)))) = []
   \<and> paradas (registro (ejecucion (rafaga [500, 500] @ [Pasa 1500])
        (ejecucion [LlegaTyping ''luis'' None True, Pasa 100] (inicial con_sesion))))
       = [(2600, \<lparr>p_usuario_id = ''ana'', p_email = ''ana@chat.org'', p_escribiendo = False\<rparr>)]
   \<and> stop_de (disparados (ejecucion (rafaga [500, 500] @ [Pasa 1500])
        (ejecucion [LlegaTyping ''luis'' None True, Pasa 100] (inicial con_sesion))))
       = [\<lparr>t_handle = 4, t_vence = 2600, t_accion = StopTyping\<rparr>]"
  using C5_rafaga [where evs = "[LlegaTyping ''luis'' None True, Pasa 100]" and e = con_sesion
      and ds = "[500, 500]" and dt = 1500]
  by (simp add: evaluar rafaga_def senal_def stop_de_def)

text \<open>
  Claim C5 as stated fails when nobody is signed in: after three calls 500 ms apart and
  a pause of 1500 ms the debounce timer of the last call has fired, at 2500, and no stop
  signal has been published.
\<close>

theorem C5_contraejemplo:
  "stop_de (disparados (ejecucion (rafaga [500, 500] @ [Pasa 1500]) (inicial sin_sesion)))
     = [\<lparr>t_handle = 3, t_vence = 2500, t_accion = StopTyping\<rparr>]
   \<and> map snd (registro (ejecucion (rafaga [500, 500] @ [Pasa 1500]) (inicial sin_sesion)))
     = [GetUser, GetUser, GetUser, GetUser]
   \<and> paradas (registro (ejecucion (rafaga [500, 500] @ [Pasa 1500]) (inicial sin_sesion))) = []"
  by (simp add: evaluar rafaga_def stop_de_def)

lemma registro_enviarMensaje:
  "registro (snd (enviarMensaje contenido s)) =
     registro s @
     (if trim contenido = [] then []
      else map (Pair (ahora s))
             (snd (ChatUseCase_enviarMensaje (e_getUser (entorno_actual s)) (e_insert (entorno_actual s)) contenido) @
              snd (setTyping (e_getUser (entorno_actual s)) (typingChannel s) False)))"
  by (simp add: enviarMensaje_def registro_useChat_enviarMensaje)

text \<open>
  Claim C6, amended. In every state the hook can reach, with a user signed in, sending a
  body that does not trim to the empty string publishes one stop signal at once, and
  leaves the pending timers and \<open>typingTimeoutRef\<close> as they were: a debounce timer that
  was pending still fires at its deadline and publishes a further stop signal.
\<close>

theorem C6_enviar_no_cancela:
  fixes evs :: "evento list" and e :: entorno and contenido :: string and dt :: nat
    and user :: usuario_auth
  defines "s \<equiv> ejecucion evs (inicial e)"
  defines "s' \<equiv> paso (EnviarMensaje contenido) (ejecucion evs (inicial e))"
  assumes cuerpo: "trim contenido \<noteq> []"
      and sesion: "e_getUser (entorno_actual s) = Responde (Some user)"
  shows "paradas (registro s') = paradas (registro s) @ [(ahora s, senal user False)]
       \<and> pendientes s' = pendientes s
       \<and> typingTimeoutRef s' = typingTimeoutRef s
       \<and> (\<forall>t\<in>set (stop_de (pendientes s)). t_vence t \<le> ahora s + dt \<longrightarrow>
             paradas (registro (paso (Pasa dt) s'))
               = paradas (registro s') @ [(t_vence t, senal user False)])"
proof -
  have inv: "invariante s"
    unfolding s_def by (rule invariante_alcanzable)
  have s'_eq: "s' = snd (enviarMensaje contenido s)"
    by (simp add: s'_def s_def)
  have inv': "invariante s'"
    unfolding s'_def by (rule invariante_paso) (rule invariante_alcanzable)
  have a: "paradas (registro s') = paradas (registro s) @ [(ahora s, senal user False)]"
    using cuerpo sesion
    by (simp add: s'_eq registro_enviarMensaje paradas_append paradas_setTyping
        paradas_ChatUseCase_enviarMensaje)
  have b: "paradas (registro (paso (Pasa dt) s')) = paradas (registro s') @ [(t_vence t, senal user False)]"
    if t: "t \<in> set (stop_de (pendientes s))" and due: "t_vence t \<le> ahora s + dt" for t
  proof -
    have t_in: "t \<in> set (pendientes s')" and t_ac: "t_accion t = StopTyping"
      using t by (simp_all add: s'_eq stop_de_def)
    have "registro (correr (ahora s' + dt) s') =
           registro s' @ map (Pair (t_vence t))
             (snd (setTyping (e_getUser (entorno_actual s')) (typingChannel s') False))"
      using correr_stop[OF inv' t_in t_ac, of "ahora s' + dt"] due by (simp add: s'_eq)
    then show ?thesis
      using sesion by (simp add: avanzar_def paradas_append paradas_setTyping s'_eq)
  qed
  show ?thesis
    using a b by (simp add: s'_eq)
qed

theorem C6_witness:
  "trim ''hola'' \<noteq> []
   \<and> e_getUser (entorno_actual (ejecucion [NotifyTyping, Pasa 10] (inicial con_sesion))) = Responde (Some ana)
   \<and> stop_de (pendientes (ejecucion [NotifyTyping, Pasa 10] (inicial con_sesion)))
       = [\<lparr>t_handle = 1, t_vence = 1500, t_accion = StopTyping\<rparr>]
   \<and> paradas (registro (paso (EnviarMensaje ''hola'') (ejecucion [NotifyTyping, Pasa 10] (inicial con_sesion))))
       = [(10, senal ana False)]
   \<and> paradas (registro (paso (Pasa 1490)
        (paso (EnviarMensaje ''hola'') (ejecucion [NotifyTyping, Pasa 10] (inicial con_sesion)))))
       = [(10, senal ana False), (1500, senal ana False)]"
  using C6_enviar_no_cancela [where evs = "[NotifyTyping, Pasa 10]" and e = con_sesion
      and contenido = "''hola''" and user = ana and dt = 1490]
  by (simp add: evaluar stop_de_def senal_def)

text \<open>
  Claim C6 as stated fails: a send 10 ms after \<^verbatim>\<open>notifyTyping()\<close> leaves the debounce timer
  pending, and two stop signals are published, at 10 ms and at 1500 ms.
\<close>

theorem C6_contraejemplo:
  "pendientes (ejecucion [NotifyTyping, Pasa 10, EnviarMensaje ''hola''] (inicial con_sesion))
     = [\<lparr>t_handle = 1, t_vence = 1500, t_accion = StopTyping\<rparr>]
   \<and> paradas (registro (ejecucion [NotifyTyping, Pasa 10, EnviarMensaje ''hola'', Pasa 1490] (inicial con_sesion)))
     = [(10, \<lparr>p_usuario_id = ''ana'', p_email = ''ana@chat.org'', p_escribiendo = False\<rparr>),
        (1500, \<lparr>p_usuario_id = ''ana'', p_email = ''ana@chat.org'', p_escribiendo = False\<rparr>)]"
  by (simp add: evaluar)

end
